theory Spec2Isabelle
  imports Main "HOL-Library.AList"
begin

section \<open>DryRunovateReporter: log mining and PR classification\<close>

text \<open>
  A shallow embedding of \<^verbatim>\<open>src/DryRunovateReporter.py\<close>. The log file is the list of
  the raw lines its iterator yields; the regular expressions of the configuration are
  kept by what Python's \<^verbatim>\<open>re\<close> answers for them on a line; exceptions are values
  of the type \<open>error\<close>.
\<close>

subsection \<open>Strings\<close>

text \<open>
  \<^verbatim>\<open>str.isspace\<close> on the code points below 256: tab to carriage return, the four
  separators 0x1C to 0x1F, the space, NEL (0x85) and the no-break space (0xA0).
\<close>

definition isspace :: "char \<Rightarrow> bool" where
  "isspace c =
     (let n = (of_char c :: nat)
      in (9 \<le> n \<and> n \<le> 13) \<or> (28 \<le> n \<and> n \<le> 32) \<or> n = 133 \<or> n = 160)"

text \<open>\<^verbatim>\<open>line.strip()\<close>: the whitespace of both ends is removed.\<close>

definition strip :: "string \<Rightarrow> string" where
  "strip s = rev (dropWhile isspace (rev (dropWhile isspace s)))"

text \<open>\<^verbatim>\<open>sep.join(xs)\<close>.\<close>

fun join :: "string \<Rightarrow> string list \<Rightarrow> string" where
  "join sep [] = []"
| "join sep [x] = x"
| "join sep (x # y # ys) = x @ sep @ join sep (y # ys)"

subsection \<open>Errors\<close>

text \<open>
  Every exception the modelled functions can raise. The first four are the
  \<^verbatim>\<open>LogFileParsingError\<close>s of the source, told apart by their message:
  \<^item> \<open>EmptyLogError\<close>: "Log file is empty.";
  \<^item> \<open>UnterminatedSectionError r\<close>: "Start of the relevant section for repository r was
    found but no end was found.";
  \<^item> \<open>AutoclosedTitleNotFoundError n l\<close>: "pr title was not found n lines below ...
    Instead the following line was found: l";
  \<^item> \<open>AutoclosedOffsetMissingError n\<close>: "pr title was not found n lines below ...
    Said line is non-existent.".

  \<open>RepositoryNameError\<close> is the \<^verbatim>\<open>ValueError\<close> of \<^verbatim>\<open>_extract_repository_name\<close>,
  \<open>NoSuchGroupError\<close> the \<^verbatim>\<open>IndexError\<close> ("no such group") of \<^verbatim>\<open>match.group\<close> for
  a group the pattern does not define, and \<open>SectionBodyParseError\<close> the
  \<^verbatim>\<open>json.JSONDecodeError\<close> of \<^verbatim>\<open>json.loads\<close>.
\<close>

datatype error =
    EmptyLogError
  | UnterminatedSectionError string
  | AutoclosedTitleNotFoundError int string
  | AutoclosedOffsetMissingError int
  | RepositoryNameError
  | NoSuchGroupError
  | SectionBodyParseError

subsection \<open>Regular expressions\<close>

text \<open>
  The match object of \<^verbatim>\<open>re\<close>: \<open>groups\<close> holds the values of the numbered groups
  1, 2, ... and \<open>groupdict\<close> those of the named groups the pattern defines. The value of a
  group that took no part in the match is \<open>None\<close>.
\<close>

record match_obj =
  groups :: "string option list"
  groupdict :: "(string \<times> string option) list"

text \<open>
  A pattern of the configuration is the function \<^verbatim>\<open>re\<close> computes for it on a line:
  \<^verbatim>\<open>re.match(pattern, line)\<close>, and \<^verbatim>\<open>re.search(pattern, line)\<close> for the
  repository name pattern. \<open>None\<close> is Python's \<^verbatim>\<open>None\<close>: no match.
\<close>

type_synonym regex = "string \<Rightarrow> match_obj option"

text \<open>The truth value of \<^verbatim>\<open>re.match(pattern, line)\<close>: a match object is always true.\<close>

definition is_match :: "regex \<Rightarrow> string \<Rightarrow> bool" where
  "is_match p line = (p line \<noteq> None)"

text \<open>\<^verbatim>\<open>match.group(i)\<close> for a number \<open>i \<ge> 1\<close> and \<^verbatim>\<open>match.group(name)\<close>.\<close>

definition group_idx :: "match_obj \<Rightarrow> nat \<Rightarrow> error + string option" where
  "group_idx m i =
     (if 1 \<le> i \<and> i \<le> length (groups m) then Inr (groups m ! (i - 1))
      else Inl NoSuchGroupError)"

definition group_name :: "match_obj \<Rightarrow> string \<Rightarrow> error + string option" where
  "group_name m name =
     (case map_of (groupdict m) name of
        None \<Rightarrow> Inl NoSuchGroupError
      | Some v \<Rightarrow> Inr v)"

subsection \<open>Configuration\<close>

text \<open>
  The class \<^verbatim>\<open>Config\<close>, after its constructor has put the timestamp base pattern in
  the place of the placeholder. \<open>timestamp_pattern\<close> is used with \<^verbatim>\<open>re.sub\<close> only and
  is a parameter of \<open>process_branches_lists\<close> below.
\<close>

record config =
  branches_info_start_pattern :: regex
  branches_info_end_pattern :: regex
  repository_name_pattern :: regex
  dry_run_info_pattern_general :: regex
  dry_run_info_pattern_autoclosed :: regex
  dry_run_info_autoclosed_pr_title_line_number :: int
  dry_run_info_autoclosed_pr_title_pattern :: regex
  updated_branch_pattern :: regex
  created_branch_pattern :: regex
  commited_files_pattern :: regex

subsection \<open>PR states\<close>

definition UNCHANGED_PR :: string where "UNCHANGED_PR = ''UNCHANGED''"
definition UPDATED_PR :: string where "UPDATED_PR = ''UPDATED''"
definition NEW_PR :: string where "NEW_PR = ''NEW''"
definition DISCARDED_PR :: string where "DISCARDED_PR = ''DISCARDED''"
definition SKIPPED_PR :: string where "SKIPPED_PR = ''SKIPPED''"
definition ERROR_PR :: string where "ERROR_PR = ''ERROR''"
definition PENDING_PR :: string where "PENDING_PR = ''PENDING''"
definition AUTOMERGED_PR :: string where "AUTOMERGED_PR = ''AUTOMERGED''"
definition UNKNOWN_PR :: string where "UNKNOWN_PR = ''UNKNOWN''"

subsection \<open>Reading lines\<close>

text \<open>
  \<^verbatim>\<open>_get_next_line\<close>: the next line of the file, stripped, or \<open>None\<close> at the end of the
  file. The file is the list of the lines not yet read; the function returns the rest.
\<close>

fun get_next_line :: "string list \<Rightarrow> string option \<times> string list" where
  "get_next_line [] = (None, [])"
| "get_next_line (l # ls) = (Some (strip l), ls)"

text \<open>The truth value of a line, as \<^verbatim>\<open>while line:\<close> reads it: neither \<open>None\<close> nor empty.\<close>

definition truthy :: "string option \<Rightarrow> bool" where
  "truthy line = (case line of None \<Rightarrow> False | Some l \<Rightarrow> l \<noteq> [])"

subsection \<open>The classifier\<close>

type_synonym dry_run_event = "string option \<times> string option \<times> string option"

text \<open>
  \<^verbatim>\<open>_get_dry_run_info\<close>: the loop over the events, \<open>result\<close> being the list built so
  far.
\<close>

fun get_dry_run_info_loop ::
  "string \<Rightarrow> string \<Rightarrow> dry_run_event list \<Rightarrow> string list \<Rightarrow> string list" where
  "get_dry_run_info_loop repository_name branch_name [] result = result"
| "get_dry_run_info_loop repository_name branch_name ((repository, branch, info) # rest) result =
     (if repository = Some repository_name \<and> branch = Some branch_name \<and> info \<noteq> None
      then get_dry_run_info_loop repository_name branch_name rest (result @ [the info])
      else get_dry_run_info_loop repository_name branch_name rest result)"

definition get_dry_run_info :: "string \<Rightarrow> string \<Rightarrow> dry_run_event list \<Rightarrow> string list" where
  "get_dry_run_info repository_name branch_name dry_run_infos =
     get_dry_run_info_loop repository_name branch_name dry_run_infos []"

text \<open>\<^verbatim>\<open>any(re.match(pattern, info) for info in dry_run_info)\<close>.\<close>

definition any_match :: "regex \<Rightarrow> string list \<Rightarrow> bool" where
  "any_match p dry_run_info = list_ex (is_match p) dry_run_info"

definition done_state_drilldown :: "config \<Rightarrow> string list \<Rightarrow> string \<times> string" where
  "done_state_drilldown cfg dry_run_info =
     (if length dry_run_info = 0 then (UNCHANGED_PR, '''')
      else if any_match (updated_branch_pattern cfg) dry_run_info then (UPDATED_PR, '''')
      else if any_match (created_branch_pattern cfg) dry_run_info then (NEW_PR, '''')
      else if any_match (commited_files_pattern cfg) dry_run_info then (UNCHANGED_PR, '''')
      else (UNKNOWN_PR, join ''<br>'' dry_run_info))"

definition no_work_state_drilldown :: "config \<Rightarrow> string list \<Rightarrow> string \<times> string" where
  "no_work_state_drilldown cfg dry_run_info =
     (if length dry_run_info = 0 then (UNCHANGED_PR, '''')
      else if any_match (commited_files_pattern cfg) dry_run_info then (NEW_PR, '''')
      else (UNKNOWN_PR, join ''<br>'' dry_run_info))"

definition determine_pr_status ::
  "string \<Rightarrow> string \<Rightarrow> string \<Rightarrow> config \<Rightarrow> dry_run_event list \<Rightarrow> string \<times> string" where
  "determine_pr_status pr_result repository_name branch_name cfg dry_run_infos =
     (let dry_run_info = get_dry_run_info repository_name branch_name dry_run_infos in
      if pr_result = ''discarded'' then (DISCARDED_PR, ''PR would be discarded'')
      else if pr_result = ''already-existed'' then
        (SKIPPED_PR, ''There is a closed PR for this dependency update so Renovate skipped the recreation of the PR'')
      else if pr_result = ''not-scheduled'' then
        (SKIPPED_PR, ''PR is not scheduled for this repository'')
      else if pr_result = ''update-not-scheduled'' then
        (SKIPPED_PR, ''PR is not scheduled for this repository'')
      else if pr_result = ''pr-limit-reached'' then
        (SKIPPED_PR, ''PR limit reached for this repository'')
      else if pr_result = ''commit-limit-reached'' then
        (SKIPPED_PR, ''Commit limit reached for this repository'')
      else if pr_result = ''branch-limit-reached'' then
        (SKIPPED_PR, ''Branch limit reached for this repository'')
      else if pr_result = ''pr-edited'' then
        (SKIPPED_PR, ''PR has been manually edited so Renovate skipped any processing in order to not override any manual changes'')
      else if pr_result = ''error'' then (ERROR_PR, join ''<br>'' dry_run_info)
      else if pr_result = ''pending'' then (PENDING_PR, join ''<br>'' dry_run_info)
      else if pr_result = ''needs-pr-approval'' then (PENDING_PR, join ''<br>'' dry_run_info)
      else if pr_result = ''needs-approval'' then (PENDING_PR, join ''<br>'' dry_run_info)
      else if pr_result = ''no-work'' then no_work_state_drilldown cfg dry_run_info
      else if pr_result = ''done'' then done_state_drilldown cfg dry_run_info
      else if pr_result = ''pr-created'' then (NEW_PR, '''')
      else if pr_result = ''rebase'' then (UNCHANGED_PR, ''PR would be rebased'')
      else if pr_result = ''automerged'' then (AUTOMERGED_PR, ''PR would be automerged'')
      else (UNKNOWN_PR, ''Unknown PR state<br>'' @ join ''<br>'' dry_run_info))"

subsection \<open>Section extraction\<close>

text \<open>
  The dictionary \<^verbatim>\<open>relevant_sections\<close>, in the order of its keys' first insertion
  (\<open>AList.update\<close> keeps the place of a key it overwrites, as a Python dictionary does).
  A key is what \<^verbatim>\<open>match.group(1)\<close> returned: a string, or \<open>None\<close> when the group
  took no part in the match.
\<close>

type_synonym sections = "(string option \<times> string list) list"

text \<open>\<^verbatim>\<open>_extract_repository_name\<close>: \<open>pat\<close> is \<^verbatim>\<open>re.search\<close> of the pattern.\<close>

definition extract_repository_name :: "string \<Rightarrow> regex \<Rightarrow> error + string option" where
  "extract_repository_name line pat =
     (case pat line of
        Some m \<Rightarrow> group_idx m 1
      | None \<Rightarrow> Inl RepositoryNameError)"

text \<open>
  What is left to read: the lines of the file, and the line in hand. It decreases with
  every turn of the loops below.
\<close>

definition cursor_size :: "string option \<Rightarrow> string list \<Rightarrow> nat" where
  "cursor_size line fh = length fh + (case line of None \<Rightarrow> 0 | Some _ \<Rightarrow> 1)"

lemma get_next_line_size:
  "(line', fh') = get_next_line fh \<Longrightarrow> cursor_size line' fh' \<le> length fh"
  by (cases fh) (auto simp: cursor_size_def)

text \<open>
  The inner \<^verbatim>\<open>while line:\<close> of \<^verbatim>\<open>_find_branches_lists\<close>, run inside a section.
  It returns the variables it leaves behind: the dictionary, the accumulator, the line in
  hand and the file. The \<^verbatim>\<open>break\<close> is the branch of the end pattern.
\<close>

function inner_while ::
  "config \<Rightarrow> string option \<Rightarrow> sections \<Rightarrow> string list \<Rightarrow> string option \<Rightarrow> string list
     \<Rightarrow> sections \<times> string list \<times> string option \<times> string list" where
  "inner_while cfg repository_name relevant_sections relevant_section line fh =
     (case line of
        None \<Rightarrow> (relevant_sections, relevant_section, line, fh)
      | Some l \<Rightarrow>
          if l = [] then (relevant_sections, relevant_section, line, fh)
          else if is_match (branches_info_end_pattern cfg) l then
            (case get_next_line fh of (line', fh') \<Rightarrow>
               (AList.update repository_name relevant_section relevant_sections, [], line', fh'))
          else
            (case get_next_line fh of (line', fh') \<Rightarrow>
               inner_while cfg repository_name relevant_sections (relevant_section @ [l]) line' fh'))"
  by pat_completeness auto
termination
  apply (relation "measure (\<lambda>(cfg, r, ss, s, line, fh). cursor_size line fh)")
   apply simp
  apply (drule get_next_line_size)
  apply (simp add: cursor_size_def)
  done

declare inner_while.simps [simp del]

lemma inner_while_size:
  "(ss', s', line', fh') = inner_while cfg r ss s line fh \<Longrightarrow>
   cursor_size line' fh' \<le> cursor_size line fh"
proof (induction cfg r ss s line fh rule: inner_while.induct)
  case (1 cfg r ss s line fh)
  note eq = "1.prems"[unfolded inner_while.simps[of cfg r ss s line fh]]
  show ?case
  proof (cases line)
    case None
    with eq show ?thesis by simp
  next
    case (Some l)
    show ?thesis
    proof (cases "l = []")
      case True
      with Some eq show ?thesis by simp
    next
      case False
      obtain ln fl where g: "(ln, fl) = get_next_line fh" by (cases "get_next_line fh") auto
      have le: "cursor_size ln fl \<le> length fh" by (rule get_next_line_size[OF g])
      show ?thesis
      proof (cases "is_match (branches_info_end_pattern cfg) l")
        case True
        with Some False g[symmetric] eq le show ?thesis by (auto simp: cursor_size_def)
      next
        case nm: False
        from Some False nm g[symmetric] eq
        have "(ss', s', line', fh') = inner_while cfg r ss (s @ [l]) ln fl" by simp
        from "1.IH"[OF Some False nm g this]
        have "cursor_size line' fh' \<le> cursor_size ln fl" .
        with le Some show ?thesis by (simp add: cursor_size_def)
      qed
    qed
  qed
qed

text \<open>
  The \<^verbatim>\<open>else\<close> clause of the outer \<^verbatim>\<open>while\<close>, which runs when the loop condition
  turns false (the only \<^verbatim>\<open>break\<close> belongs to the inner loop), followed by the
  \<^verbatim>\<open>return\<close>. The warning and the log message have no effect on the result.
\<close>

definition while_else :: "sections \<Rightarrow> string option \<Rightarrow> error + sections" where
  "while_else relevant_sections repository_name =
     (case repository_name of
        None \<Rightarrow> Inr relevant_sections
      | Some r \<Rightarrow>
          if map_of relevant_sections repository_name = None
          then Inl (UnterminatedSectionError r)
          else Inr relevant_sections)"

text \<open>The outer \<^verbatim>\<open>while line:\<close> of \<^verbatim>\<open>_find_branches_lists\<close>.\<close>

function outer_while ::
  "config \<Rightarrow> sections \<Rightarrow> string list \<Rightarrow> string option \<Rightarrow> string option \<Rightarrow> string list
     \<Rightarrow> error + sections" where
  "outer_while cfg relevant_sections relevant_section repository_name line fh =
     (case line of
        None \<Rightarrow> while_else relevant_sections repository_name
      | Some l \<Rightarrow>
          if l = [] then while_else relevant_sections repository_name
          else if is_match (branches_info_start_pattern cfg) l then
            (case extract_repository_name l (repository_name_pattern cfg) of
               Inl e \<Rightarrow> Inl e
             | Inr name \<Rightarrow>
                 (case get_next_line fh of (line', fh') \<Rightarrow>
                    (case inner_while cfg name relevant_sections relevant_section line' fh' of
                       (sections', section', line'', fh'') \<Rightarrow>
                         outer_while cfg sections' section' name line'' fh'')))
          else
            (case get_next_line fh of (line', fh') \<Rightarrow>
               outer_while cfg relevant_sections relevant_section repository_name line' fh'))"
  by pat_completeness auto
termination
  apply (relation "measure (\<lambda>(cfg, ss, s, r, line, fh). cursor_size line fh)")
    apply simp
   apply clarify
   apply (drule get_next_line_size)
   apply (drule inner_while_size)
   apply (simp add: cursor_size_def)
  apply (drule get_next_line_size)
  apply (simp add: cursor_size_def)
  done

declare outer_while.simps [simp del]

text \<open>\<^verbatim>\<open>_find_branches_lists\<close> on the lines of the log file.\<close>

definition find_branches_lists :: "config \<Rightarrow> string list \<Rightarrow> error + sections" where
  "find_branches_lists cfg log_file =
     (case get_next_line log_file of (line, fh) \<Rightarrow>
        if \<not> truthy line then Inl EmptyLogError
        else outer_while cfg [] [] None line fh)"

subsection \<open>The dry-run event index\<close>

text \<open>
  The \<^verbatim>\<open>while line:\<close> of \<^verbatim>\<open>_extract_general_dry_run_infos\<close>. The three calls of
  \<^verbatim>\<open>match.group\<close> run in the order of the source; each raises for a group the
  pattern does not define.
\<close>

function general_while ::
  "config \<Rightarrow> dry_run_event list \<Rightarrow> string option \<Rightarrow> string list \<Rightarrow> error + dry_run_event list" where
  "general_while cfg dry_run_infos line fh =
     (case line of
        None \<Rightarrow> Inr dry_run_infos
      | Some l \<Rightarrow>
          if l = [] then Inr dry_run_infos
          else
            (case dry_run_info_pattern_general cfg l of
               Some m \<Rightarrow>
                 (case group_name m ''repository_name'' of
                    Inl e \<Rightarrow> Inl e
                  | Inr repository_name \<Rightarrow>
                 (case group_name m ''branch_name'' of
                    Inl e \<Rightarrow> Inl e
                  | Inr branch_name \<Rightarrow>
                 (case group_name m ''info'' of
                    Inl e \<Rightarrow> Inl e
                  | Inr info \<Rightarrow>
                 (case get_next_line fh of (line', fh') \<Rightarrow>
                    general_while cfg (dry_run_infos @ [(repository_name, branch_name, info)])
                      line' fh'))))
             | None \<Rightarrow>
                 (case get_next_line fh of (line', fh') \<Rightarrow>
                    general_while cfg dry_run_infos line' fh')))"
  by pat_completeness auto
termination
  apply (relation "measure (\<lambda>(cfg, infos, line, fh). cursor_size line fh)")
    apply simp
   apply (drule get_next_line_size)
   apply (simp add: cursor_size_def)
  apply (drule get_next_line_size)
  apply (simp add: cursor_size_def)
  done

declare general_while.simps [simp del]

definition extract_general_dry_run_infos :: "config \<Rightarrow> string list \<Rightarrow> error + dry_run_event list" where
  "extract_general_dry_run_infos cfg log_file =
     (case get_next_line log_file of (line, fh) \<Rightarrow> general_while cfg [] line fh)"

subsection \<open>Autoclosed events\<close>

type_synonym autoclosed_record = "string option \<times> string option"

text \<open>
  \<^verbatim>\<open>for _ in range(n): line = _get_next_line(file)\<close>. With \<open>n = 0\<close> nothing is read
  and the line in hand stays.
\<close>

fun advance :: "nat \<Rightarrow> string option \<Rightarrow> string list \<Rightarrow> string option \<times> string list" where
  "advance 0 line fh = (line, fh)"
| "advance (Suc n) line fh = (case get_next_line fh of (line', fh') \<Rightarrow> advance n line' fh')"

text \<open>
  The body of the \<^verbatim>\<open>while line:\<close> of
  \<^verbatim>\<open>_extract_and_process_autoclosed_dry_run_infos\<close>, for a line \<open>l\<close> that is neither
  \<open>None\<close> nor empty: an error, or the variables \<open>result\<close>, \<open>line\<close> and the file as the
  body leaves them. \<^verbatim>\<open>range\<close> of a negative number is empty, hence \<open>nat\<close>. After a
  title has been found the line in hand is still the title line: the body reads no
  further line.
\<close>

definition autoclosed_body ::
  "config \<Rightarrow> autoclosed_record list \<Rightarrow> string \<Rightarrow> string list
     \<Rightarrow> error + (autoclosed_record list \<times> string option \<times> string list)" where
  "autoclosed_body cfg result l fh =
     (case dry_run_info_pattern_autoclosed cfg l of
        Some m \<Rightarrow>
          (case group_name m ''repository_name'' of
             Inl e \<Rightarrow> Inl e
           | Inr repository_name \<Rightarrow>
               (case advance (nat (dry_run_info_autoclosed_pr_title_line_number cfg)) (Some l) fh of
                  (line', fh') \<Rightarrow>
                    (case line' of
                       Some title_line \<Rightarrow>
                         (case dry_run_info_autoclosed_pr_title_pattern cfg title_line of
                            Some m' \<Rightarrow>
                              (case group_name m' ''pr_title'' of
                                 Inl e \<Rightarrow> Inl e
                               | Inr pr_title \<Rightarrow>
                                   Inr (result @ [(repository_name, pr_title)], line', fh'))
                          | None \<Rightarrow>
                              Inl (AutoclosedTitleNotFoundError
                                     (dry_run_info_autoclosed_pr_title_line_number cfg) title_line))
                     | None \<Rightarrow>
                         Inl (AutoclosedOffsetMissingError
                                (dry_run_info_autoclosed_pr_title_line_number cfg)))))
      | None \<Rightarrow> (case get_next_line fh of (line', fh') \<Rightarrow> Inr (result, line', fh')))"

text \<open>
  The loop itself. It need not end (the body may leave line and file as they are), so
  its value is an option: \<open>None\<close> when the loop runs forever.
\<close>

partial_function (option) autoclosed_while ::
  "config \<Rightarrow> autoclosed_record list \<Rightarrow> string option \<Rightarrow> string list
     \<Rightarrow> (error + autoclosed_record list) option" where
  "autoclosed_while cfg result line fh =
     (case line of
        None \<Rightarrow> Some (Inr result)
      | Some l \<Rightarrow>
          if l = [] then Some (Inr result)
          else
            (case autoclosed_body cfg result l fh of
               Inl e \<Rightarrow> Some (Inl e)
             | Inr (result', line', fh') \<Rightarrow> autoclosed_while cfg result' line' fh'))"

declare autoclosed_while.simps [code]

definition extract_and_process_autoclosed_dry_run_infos ::
  "config \<Rightarrow> string list \<Rightarrow> (error + autoclosed_record list) option" where
  "extract_and_process_autoclosed_dry_run_infos cfg log_file =
     (case get_next_line log_file of (line, fh) \<Rightarrow> autoclosed_while cfg [] line fh)"

subsection \<open>The section decoder\<close>

text \<open>
  The values \<^verbatim>\<open>json.loads\<close> builds (numbers: the integers only). A Python dictionary
  with string keys is the list of its items in the order of the keys' insertion.
\<close>

datatype json =
    JNull
  | JBool bool
  | JInt int
  | JStr string
  | JArr "json list"
  | JObj "(string \<times> json) list"

type_synonym document = "(string \<times> json) list"

text \<open>
  \<^verbatim>\<open>{**d, **parsed}\<close>: the items of \<open>parsed\<close> are written into \<open>d\<close> one after the
  other; a key that \<open>d\<close> has keeps its place and takes the new value.
\<close>

definition dict_merge :: "document \<Rightarrow> document \<Rightarrow> document" where
  "dict_merge d parsed = foldl (\<lambda>acc (k, v). AList.update k v acc) d parsed"


text \<open>A \<^verbatim>\<open>str | None\<close> as a value of a document.\<close>

definition py_str :: "string option \<Rightarrow> json" where
  "py_str v = (case v of None \<Rightarrow> JNull | Some s \<Rightarrow> JStr s)"


text \<open>
  \<^verbatim>\<open>joined_string\<close>: \<open>timestamp_pattern\<close> stands for
  \<^verbatim>\<open>re.sub(timestamp_pattern, "", line)\<close>.
\<close>

definition section_text :: "(string \<Rightarrow> string) \<Rightarrow> string list \<Rightarrow> string" where
  "section_text timestamp_pattern lines =
     (let stripped_lines = map timestamp_pattern lines
      in ''{'' @ concat stripped_lines @ ''}'')"


text \<open>
  The two loops of \<^verbatim>\<open>_process_branches_lists\<close>, \<open>items\<close> being the list built so
  far. \<open>json_loads\<close> stands for \<^verbatim>\<open>json.loads\<close> on the texts it is given here, which
  all begin with a brace: it returns a dictionary, or \<open>None\<close> for a
  \<^verbatim>\<open>JSONDecodeError\<close>.
\<close>

fun sections_loop ::
  "(string \<Rightarrow> document option) \<Rightarrow> (string \<Rightarrow> string) \<Rightarrow> sections \<Rightarrow> document list
     \<Rightarrow> error + document list" where
  "sections_loop json_loads timestamp_pattern [] items = Inr items"
| "sections_loop json_loads timestamp_pattern ((repository, lines) # rest) items =
     (case json_loads (section_text timestamp_pattern lines) of
        None \<Rightarrow> Inl SectionBodyParseError
      | Some parsed \<Rightarrow>
          sections_loop json_loads timestamp_pattern rest
            (items @ [dict_merge [(''repository'', py_str repository)] parsed]))"



subsection \<open>Sample patterns and a sample configuration\<close>

text \<open>
  The answers of \<^verbatim>\<open>re.match\<close> for some concrete patterns, on a line without a line
  break. \<open>re_literal p\<close> is a pattern that is the text \<open>p\<close> itself (no metacharacter, no
  group): it matches the lines that begin with \<open>p\<close>.
\<close>

definition re_literal :: "string \<Rightarrow> regex" where
  "re_literal p line =
     (if take (length p) line = p then Some \<lparr>groups = [], groupdict = []\<rparr> else None)"

text \<open>
  \<open>re_prefix_group p names\<close> is the pattern \<^verbatim>\<open>^p(.*)\<close>, the text \<open>p\<close> followed by one
  group that takes the rest of the line; the group has the names of \<open>names\<close> (at most
  one: \<^verbatim>\<open>^p(?P<name>.*)\<close>). As the pattern is anchored, \<^verbatim>\<open>re.search\<close> answers as
  \<^verbatim>\<open>re.match\<close> does.
\<close>

definition re_prefix_group :: "string \<Rightarrow> string list \<Rightarrow> regex" where
  "re_prefix_group p names line =
     (if take (length p) line = p
      then (let rest = drop (length p) line
            in Some \<lparr>groups = [Some rest], groupdict = map (\<lambda>n. (n, Some rest)) names\<rparr>)
      else None)"

text \<open>
  \<open>re_repo_branch_info\<close> is the pattern
  \<^verbatim>\<open>(?P<repository_name>[^ ]*) (?P<branch_name>[^ ]*)(?: (?P<info>.*))?\<close>: two fields
  with a space between them, and after a second space the info, a group that takes no
  part in the match when the line ends after the second field.
  \<open>re_repo_branch\<close> is the same pattern without its last, optional part:
  \<^verbatim>\<open>(?P<repository_name>[^ ]*) (?P<branch_name>[^ ]*)\<close>, which defines no group
  \<^verbatim>\<open>info\<close>.
\<close>

definition not_blank_char :: "char \<Rightarrow> bool" where
  "not_blank_char c = (c \<noteq> CHR '' '')"

definition re_repo_branch_info :: regex where
  "re_repo_branch_info line =
     (let r = takeWhile not_blank_char line; rest = dropWhile not_blank_char line
      in if rest = [] then None
         else (let b = takeWhile not_blank_char (tl rest);
                   rest' = dropWhile not_blank_char (tl rest);
                   i = (if rest' = [] then None else Some (tl rest'))
               in Some \<lparr>groups = [Some r, Some b, i],
                         groupdict = [(''repository_name'', Some r), (''branch_name'', Some b),
                                      (''info'', i)]\<rparr>))"

definition re_repo_branch :: regex where
  "re_repo_branch line =
     (let r = takeWhile not_blank_char line; rest = dropWhile not_blank_char line
      in if rest = [] then None
         else (let b = takeWhile not_blank_char (tl rest)
               in Some \<lparr>groups = [Some r, Some b],
                         groupdict = [(''repository_name'', Some r), (''branch_name'', Some b)]\<rparr>))"

text \<open>
  A configuration in the manner of the tests: sections run from a line \<^verbatim>\<open>START r\<close> to
  a line \<^verbatim>\<open>END\<close>, an autoclosed marker is a line \<^verbatim>\<open>AUTOCLOSED r\<close> and its title
  line, two lines below, is \<^verbatim>\<open>TITLE t\<close>.
\<close>

definition sample_config :: config where
  "sample_config =
     \<lparr>branches_info_start_pattern = re_literal ''START'',
      branches_info_end_pattern = re_literal ''END'',
      repository_name_pattern = re_prefix_group ''START '' [],
      dry_run_info_pattern_general = re_repo_branch_info,
      dry_run_info_pattern_autoclosed = re_prefix_group ''AUTOCLOSED '' [''repository_name''],
      dry_run_info_autoclosed_pr_title_line_number = 2,
      dry_run_info_autoclosed_pr_title_pattern = re_prefix_group ''TITLE '' [''pr_title''],
      updated_branch_pattern = re_literal ''updated'',
      created_branch_pattern = re_literal ''created'',
      commited_files_pattern = re_literal ''committed''\<rparr>"

subsection \<open>Positions in the log\<close>

text \<open>
  The line \<open>n\<close> positions forward of a line \<open>l\<close> in hand, \<open>fh\<close> being the lines of the
  file after \<open>l\<close>: \<open>l\<close> itself for \<open>n = 0\<close>, the \<open>n\<close>-th line of \<open>fh\<close> (stripped, as
  every line read is) when the file has that many lines, and \<open>None\<close> past its end.
\<close>

definition line_at_offset :: "string \<Rightarrow> string list \<Rightarrow> nat \<Rightarrow> string option" where
  "line_at_offset l fh n =
     (if n = 0 then Some l
      else if n \<le> length fh then Some (strip (fh ! (n - 1)))
      else None)"

text \<open>A raw line that is empty once stripped.\<close>

definition blank :: "string \<Rightarrow> bool" where
  "blank b = (strip b = [])"

text \<open>The sample configuration with the offset 0.\<close>

definition offset0_config :: config where
  "offset0_config = sample_config\<lparr>dry_run_info_autoclosed_pr_title_line_number := 0\<rparr>"

text \<open>
  The offset 0 with a title on the marker line itself: the marker pattern is
  \<^verbatim>\<open>^AUTOCLOSED (?P<repository_name>.*)\<close> and the title pattern
  \<^verbatim>\<open>^AUTOCLOSED (?P<pr_title>.*)\<close>, so that a marker line is its own title line.
\<close>

definition same_line_config :: config where
  "same_line_config =
     sample_config\<lparr>dry_run_info_autoclosed_pr_title_line_number := 0,
                    dry_run_info_autoclosed_pr_title_pattern :=
                      re_prefix_group ''AUTOCLOSED '' [''pr_title'']\<rparr>"

text \<open>
  The sample configuration with a general-info pattern that leaves the capture
  \<^verbatim>\<open>info\<close> out.
\<close>

definition no_info_config :: config where
  "no_info_config = sample_config\<lparr>dry_run_info_pattern_general := re_repo_branch\<rparr>"

subsection \<open>The section machine of the specification\<close>

text \<open>
  The two states of the scan of section 4.2 of the specification, \<open>IN_SECTION\<close> with the
  repository identifier the section is bound to.
\<close>

datatype scan_state = OUTSIDE | IN_SECTION "string option"

text \<open>
  The repository identifiers seen at start markers with a matching end marker, as that
  machine meets them on a list of lines: outside a section a line that matches the start
  pattern opens the section of the identifier extracted from it; inside a section the
  first line that matches the end pattern seals it.
\<close>

fun sealed_repositories :: "config \<Rightarrow> scan_state \<Rightarrow> string list \<Rightarrow> string option set" where
  "sealed_repositories cfg st [] = {}"
| "sealed_repositories cfg OUTSIDE (l # ls) =
     (if is_match (branches_info_start_pattern cfg) l then
        (case extract_repository_name l (repository_name_pattern cfg) of
           Inl e \<Rightarrow> {}
         | Inr r \<Rightarrow> sealed_repositories cfg (IN_SECTION r) ls)
      else sealed_repositories cfg OUTSIDE ls)"
| "sealed_repositories cfg (IN_SECTION r) (l # ls) =
     (if is_match (branches_info_end_pattern cfg) l
      then insert r (sealed_repositories cfg OUTSIDE ls)
      else sealed_repositories cfg (IN_SECTION r) ls)"

text \<open>The stripped lines of a log file up to its first blank line.\<close>

definition examined_lines :: "string list \<Rightarrow> string list" where
  "examined_lines log_file = takeWhile (\<lambda>l. l \<noteq> []) (map strip log_file)"

text \<open>The same for a reader in the middle of the file: the line in hand and the lines after it.\<close>

definition cursor_lines :: "string option \<Rightarrow> string list \<Rightarrow> string list" where
  "cursor_lines line fh =
     (case line of None \<Rightarrow> [] | Some l \<Rightarrow> takeWhile (\<lambda>l. l \<noteq> []) (l # map strip fh))"

subsection \<open>Documents of the decoder\<close>






subsection \<open>A reader of JSON texts\<close>

text \<open>
  What \<^verbatim>\<open>json.loads\<close> reads is fixed by the JSON grammar. The reader below follows the
  decoder of Python's \<^verbatim>\<open>json\<close> module on that grammar, function by function, for
  objects, arrays, strings, integers and the literals \<^verbatim>\<open>true\<close>, \<^verbatim>\<open>false\<close> and
  \<^verbatim>\<open>null\<close>. It is the yardstick for the \<open>json_loads\<close> of the decoder: a text it reads
  is a JSON text with the value it gives. What it does not read is a text that is no JSON
  (\<^verbatim>\<open>json.loads\<close> raises \<^verbatim>\<open>JSONDecodeError\<close>) and, of JSON, the numbers with a
  fraction or an exponent, the escape of a code point by its four hexadecimal digits and
  the literals \<^verbatim>\<open>NaN\<close> and \<^verbatim>\<open>Infinity\<close>.

  The whitespace between the tokens: space, tab, line feed and carriage return.
\<close>

definition is_ws :: "char \<Rightarrow> bool" where
  "is_ws c = (c = CHR '' '' \<or> c = CHR 0x09 \<or> c = CHR 0x0A \<or> c = CHR 0x0D)"

definition skip_ws :: "string \<Rightarrow> string" where
  "skip_ws s = dropWhile is_ws s"

text \<open>The character a backslash and the character \<open>e\<close> stand for inside a string.\<close>

definition unescape :: "char \<Rightarrow> char option" where
  "unescape e =
     map_of [(CHR 0x22, CHR 0x22), (CHR 0x5C, CHR 0x5C), (CHR ''/'', CHR ''/''),
             (CHR ''b'', CHR 0x08), (CHR ''f'', CHR 0x0C), (CHR ''n'', CHR 0x0A),
             (CHR ''r'', CHR 0x0D), (CHR ''t'', CHR 0x09)] e"

text \<open>
  \<^verbatim>\<open>scanstring\<close>, after the opening quote: the string up to the closing quote and the
  text after it. A character below 0x20 is refused (the decoder is strict); a double
  quote ends the string; a backslash takes the next character with it.
\<close>

fun scanstring :: "string \<Rightarrow> (string \<times> string) option" where
  "scanstring [] = None"
| "scanstring (c # cs) =
     (if c = CHR 0x22 then Some ([], cs)
      else if c = CHR 0x5C then
        (case cs of
           [] \<Rightarrow> None
         | e # cs' \<Rightarrow>
             (case unescape e of
                None \<Rightarrow> None
              | Some d \<Rightarrow>
                  (case scanstring cs' of
                     None \<Rightarrow> None
                   | Some (str, rest) \<Rightarrow> Some (d # str, rest))))
      else if (of_char c :: nat) < 32 then None
      else (case scanstring cs of
              None \<Rightarrow> None
            | Some (str, rest) \<Rightarrow> Some (c # str, rest)))"

text \<open>
  An integer: an optional minus sign, then \<^verbatim>\<open>0\<close> or a digit other than \<^verbatim>\<open>0\<close> with
  the digits after it.
\<close>

definition is_digit :: "char \<Rightarrow> bool" where
  "is_digit c = (48 \<le> (of_char c :: nat) \<and> (of_char c :: nat) \<le> 57)"

definition digit_val :: "char \<Rightarrow> int" where
  "digit_val c = int (of_char c) - 48"

definition scan_nat :: "string \<Rightarrow> (int \<times> string) option" where
  "scan_nat s =
     (case s of
        [] \<Rightarrow> None
      | c # cs \<Rightarrow>
          if c = CHR ''0'' then Some (0, cs)
          else if is_digit c then
            Some (foldl (\<lambda>a d. 10 * a + digit_val d) 0 (takeWhile is_digit s),
                  dropWhile is_digit s)
          else None)"

definition scan_int :: "string \<Rightarrow> (int \<times> string) option" where
  "scan_int s =
     (case s of
        [] \<Rightarrow> None
      | c # cs \<Rightarrow>
          if c = CHR ''-'' then
            (case scan_nat cs of None \<Rightarrow> None | Some (i, rest) \<Rightarrow> Some (- i, rest))
          else scan_nat s)"

text \<open>
  \<^verbatim>\<open>scan_once\<close>, \<^verbatim>\<open>JSONArray\<close> and \<^verbatim>\<open>JSONObject\<close>: a value (after whitespace), the
  elements of an array up to its bracket, and the members of an object up to its brace,
  each with the text that follows. The pairs of an object become a dictionary as
  \<^verbatim>\<open>dict(pairs)\<close> builds it. The first argument bounds the depth of the calls; where it
  is used up nothing is read.
\<close>

fun scan_once :: "nat \<Rightarrow> string \<Rightarrow> (json \<times> string) option"
  and json_array :: "nat \<Rightarrow> string \<Rightarrow> (json list \<times> string) option"
  and json_object :: "nat \<Rightarrow> string \<Rightarrow> ((string \<times> json) list \<times> string) option" where
  "scan_once 0 s = None"
| "scan_once (Suc n) s =
     (case skip_ws s of
        [] \<Rightarrow> None
      | c # cs \<Rightarrow>
          if c = CHR 0x22 then
            (case scanstring cs of
               None \<Rightarrow> None
             | Some (str, rest) \<Rightarrow> Some (JStr str, rest))
          else if c = CHR ''{'' then
            (case skip_ws cs of
               [] \<Rightarrow> None
             | c' # cs' \<Rightarrow>
                 if c' = CHR ''}'' then Some (JObj [], cs')
                 else (case json_object n (c' # cs') of
                         None \<Rightarrow> None
                       | Some (pairs, rest) \<Rightarrow> Some (JObj (dict_merge [] pairs), rest)))
          else if c = CHR ''['' then
            (case skip_ws cs of
               [] \<Rightarrow> None
             | c' # cs' \<Rightarrow>
                 if c' = CHR '']'' then Some (JArr [], cs')
                 else (case json_array n (c' # cs') of
                         None \<Rightarrow> None
                       | Some (vs, rest) \<Rightarrow> Some (JArr vs, rest)))
          else if take 4 (c # cs) = ''null'' then Some (JNull, drop 3 cs)
          else if take 4 (c # cs) = ''true'' then Some (JBool True, drop 3 cs)
          else if take 5 (c # cs) = ''false'' then Some (JBool False, drop 4 cs)
          else
            (case scan_int (c # cs) of
               None \<Rightarrow> None
             | Some (i, rest) \<Rightarrow>
                 (case rest of
                    [] \<Rightarrow> Some (JInt i, rest)
                  | d # _ \<Rightarrow> if d \<in> set ''.eE'' then None else Some (JInt i, rest))))"
| "json_array 0 s = None"
| "json_array (Suc n) s =
     (case scan_once n s of
        None \<Rightarrow> None
      | Some (v, rest) \<Rightarrow>
          (case skip_ws rest of
             [] \<Rightarrow> None
           | c # cs \<Rightarrow>
               if c = CHR '']'' then Some ([v], cs)
               else if c = CHR '','' then
                 (case json_array n cs of
                    None \<Rightarrow> None
                  | Some (vs, rest') \<Rightarrow> Some (v # vs, rest'))
               else None))"
| "json_object 0 s = None"
| "json_object (Suc n) s =
     (case skip_ws s of
        [] \<Rightarrow> None
      | c # cs \<Rightarrow>
          if c \<noteq> CHR 0x22 then None
          else
            (case scanstring cs of
               None \<Rightarrow> None
             | Some (key, rest) \<Rightarrow>
                 (case skip_ws rest of
                    [] \<Rightarrow> None
                  | c' # cs' \<Rightarrow>
                      if c' \<noteq> CHR '':'' then None
                      else
                        (case scan_once n cs' of
                           None \<Rightarrow> None
                         | Some (v, rest') \<Rightarrow>
                             (case skip_ws rest' of
                                [] \<Rightarrow> None
                              | c'' # cs'' \<Rightarrow>
                                  if c'' = CHR ''}'' then Some ([(key, v)], cs'')
                                  else if c'' = CHR '','' then
                                    (case json_object n cs'' of
                                       None \<Rightarrow> None
                                     | Some (pairs, rest'') \<Rightarrow> Some ((key, v) # pairs, rest''))
                                  else None)))))"



subsection \<open>Auxiliary notions of the properties\<close>

text \<open>The events \<^verbatim>\<open>_get_dry_run_info\<close> keeps for a repository and a branch.\<close>

definition event_matches :: "string \<Rightarrow> string \<Rightarrow> dry_run_event \<Rightarrow> bool" where
  "event_matches repository_name branch_name ev =
     (case ev of (repository, branch, info) \<Rightarrow>
        repository = Some repository_name \<and> branch = Some branch_name \<and> info \<noteq> None)"

text \<open>The result codes that \<^verbatim>\<open>_determine_pr_status\<close> has a case for.\<close>

definition known_results :: "string list" where
  "known_results =
     [''discarded'', ''already-existed'', ''not-scheduled'', ''update-not-scheduled'',
      ''pr-limit-reached'', ''commit-limit-reached'', ''branch-limit-reached'', ''pr-edited'',
      ''error'', ''pending'', ''needs-pr-approval'', ''needs-approval'', ''no-work'', ''done'',
      ''pr-created'', ''rebase'', ''automerged'']"

text \<open>
  Two readers, one of the lines \<open>pre\<close> and one of \<open>pre @ b # post\<close> with a blank line
  \<open>b\<close>: as long as both are inside \<open>pre\<close> they hold the same line and the second has
  \<open>b # post\<close> more to read; when the first is at the end of its file the second holds the
  blank line.
\<close>

definition same_until_blank ::
  "string \<Rightarrow> string list \<Rightarrow> string option \<times> string list \<Rightarrow> string option \<times> string list \<Rightarrow> bool" where
  "same_until_blank b post c c' =
     ((fst c' = fst c \<and> snd c' = snd c @ b # post) \<or>
      (c = (None, []) \<and> c' = (Some [], post)))"

section \<open>Properties of the classifier\<close>

lemma get_dry_run_info_loop_filter:
  "get_dry_run_info_loop r b evs acc =
     acc @ map (\<lambda>ev. the (snd (snd ev))) (filter (event_matches r b) evs)"
  by (induction r b evs acc rule: get_dry_run_info_loop.induct)
     (simp_all add: event_matches_def)

lemma get_dry_run_info_filter:
  "get_dry_run_info r b evs = map (\<lambda>ev. the (snd (snd ev))) (filter (event_matches r b) evs)"
  by (simp add: get_dry_run_info_def get_dry_run_info_loop_filter)

lemma any_match_iff: "any_match p xs \<longleftrightarrow> (\<exists>l \<in> set xs. p l \<noteq> None)"
  by (simp add: any_match_def list_ex_iff is_match_def)

text \<open>
  C1. For the result code \<^verbatim>\<open>done\<close> the classifier answers by the info lines of the
  repository and branch: \<^verbatim>\<open>UNCHANGED\<close> with an empty detail when there is none;
  otherwise \<^verbatim>\<open>UPDATED\<close> when a line matches the updated-branch pattern, else
  \<^verbatim>\<open>NEW\<close> when a line matches the created-branch pattern, else \<^verbatim>\<open>UNCHANGED\<close> when a
  line matches the committed-files pattern, else \<^verbatim>\<open>UNKNOWN\<close> with the lines joined
  as the detail. In particular, info lines that match both the updated and the created
  pattern give \<^verbatim>\<open>UPDATED\<close>, never \<^verbatim>\<open>NEW\<close>.
\<close>

theorem done_drilldown_priority:
  "determine_pr_status ''done'' repository branch cfg events =
     (let infoLines = get_dry_run_info repository branch events in
      if infoLines = [] then (UNCHANGED_PR, '''')
      else if \<exists>l \<in> set infoLines. updated_branch_pattern cfg l \<noteq> None then (UPDATED_PR, '''')
      else if \<exists>l \<in> set infoLines. created_branch_pattern cfg l \<noteq> None then (NEW_PR, '''')
      else if \<exists>l \<in> set infoLines. commited_files_pattern cfg l \<noteq> None then (UNCHANGED_PR, '''')
      else (UNKNOWN_PR, join ''<br>'' infoLines))
   \<and> ((\<exists>l \<in> set (get_dry_run_info repository branch events). updated_branch_pattern cfg l \<noteq> None) \<and>
        (\<exists>l \<in> set (get_dry_run_info repository branch events). created_branch_pattern cfg l \<noteq> None)
        \<longrightarrow> determine_pr_status ''done'' repository branch cfg events = (UPDATED_PR, '''')
            \<and> fst (determine_pr_status ''done'' repository branch cfg events) \<noteq> NEW_PR)"
  by (auto simp: determine_pr_status_def done_state_drilldown_def any_match_iff Let_def
        UPDATED_PR_def NEW_PR_def)

text \<open>
  The priority at work: the created line comes first in the log, the updated line second,
  and the state is \<^verbatim>\<open>UPDATED\<close>.
\<close>

lemma sample_infos:
  "get_dry_run_info ''repo'' ''branch''
     [(Some ''repo'', Some ''branch'', Some ''created branch''),
      (Some ''other'', Some ''branch'', Some ''committed files''),
      (Some ''repo'', Some ''branch'', Some ''updated branch'')]
   = [''created branch'', ''updated branch'']"
  by (simp add: get_dry_run_info_def)

theorem done_drilldown_priority_witness:
  "determine_pr_status ''done'' ''repo'' ''branch'' sample_config
     [(Some ''repo'', Some ''branch'', Some ''created branch''),
      (Some ''other'', Some ''branch'', Some ''committed files''),
      (Some ''repo'', Some ''branch'', Some ''updated branch'')]
   = (''UPDATED'', '''')"
proof -
  let ?evs = "[(Some ''repo'', Some ''branch'', Some ''created branch''),
      (Some ''other'', Some ''branch'', Some ''committed files''),
      (Some ''repo'', Some ''branch'', Some ''updated branch'')]"
  have u: "\<exists>l \<in> set (get_dry_run_info ''repo'' ''branch'' ?evs).
             updated_branch_pattern sample_config l \<noteq> None"
    by (simp add: sample_infos sample_config_def re_literal_def)
  have c: "\<exists>l \<in> set (get_dry_run_info ''repo'' ''branch'' ?evs).
             created_branch_pattern sample_config l \<noteq> None"
    by (simp add: sample_infos sample_config_def re_literal_def)
  have "determine_pr_status ''done'' ''repo'' ''branch'' sample_config ?evs = (UPDATED_PR, '''')
        \<and> fst (determine_pr_status ''done'' ''repo'' ''branch'' sample_config ?evs) \<noteq> NEW_PR"
    by (rule done_drilldown_priority[THEN conjunct2, THEN mp, OF conjI[OF u c]])
  then show ?thesis by (simp add: UPDATED_PR_def)
qed

text \<open>
  C6. For the result code \<^verbatim>\<open>error\<close> the classifier answers \<^verbatim>\<open>ERROR\<close>, and the
  detail is the info of every event whose repository and branch are the given ones and
  whose info is present: all of them, in the order of the event list, joined with
  \<^verbatim>\<open><br>\<close>.
\<close>

theorem error_detail_all_matches:
  "determine_pr_status ''error'' repository branch cfg events =
     (ERROR_PR,
      join ''<br>'' (map (\<lambda>ev. the (snd (snd ev))) (filter (event_matches repository branch) events)))"
  by (simp add: determine_pr_status_def get_dry_run_info_filter)

text \<open>Scenario C of the specification, with events of other branches in between.\<close>

lemma error_detail_scenario:
  "determine_pr_status ''error'' ''repo'' ''branch'' sample_config
     [(Some ''repo'', Some ''branch'', Some ''disk full''),
      (Some ''repo'', Some ''other'', Some ''skipped''),
      (Some ''repo'', Some ''branch'', None),
      (Some ''repo'', Some ''branch'', Some ''retry failed'')]
   = (''ERROR'', ''disk full<br>retry failed'')"
  by (simp add: determine_pr_status_def get_dry_run_info_def ERROR_PR_def)

text \<open>
  C9. A result code that is none of the codes the classifier has a case for gives
  \<^verbatim>\<open>UNKNOWN\<close>; the detail is the marker \<^verbatim>\<open>Unknown PR state\<close>, a \<^verbatim>\<open><br>\<close> and the
  joined info lines.
\<close>

theorem unknown_result_code:
  assumes "pr_result \<notin> set known_results"
  shows "determine_pr_status pr_result repository branch cfg events =
           (UNKNOWN_PR,
            ''Unknown PR state<br>'' @ join ''<br>'' (get_dry_run_info repository branch events))
         \<and> take 16 (snd (determine_pr_status pr_result repository branch cfg events))
             = ''Unknown PR state''"
  using assms by (simp add: determine_pr_status_def known_results_def)

theorem unknown_result_code_witness:
  "determine_pr_status ''someWeirdStatus'' ''test_repo'' ''test_branch'' sample_config
     [(Some ''test_repo'', Some ''test_branch'', Some ''updated''),
      (Some ''test_repo'', Some ''test_branch'', Some ''someOtherInfo'')]
   = (''UNKNOWN'', ''Unknown PR state<br>updated<br>someOtherInfo'')"
proof -
  have "''someWeirdStatus'' \<notin> set known_results"
    by (simp add: known_results_def)
  from unknown_result_code[OF this, of "''test_repo''" "''test_branch''" sample_config
      "[(Some ''test_repo'', Some ''test_branch'', Some ''updated''),
        (Some ''test_repo'', Some ''test_branch'', Some ''someOtherInfo'')]"]
  show ?thesis by (simp add: UNKNOWN_PR_def get_dry_run_info_def)
qed

section \<open>Properties of the autoclosed-event extractor\<close>

lemma advance_None: "advance n None [] = (None, [])"
  by (induction n) simp_all

lemma line_at_offset_Cons:
  "line_at_offset l (x # xs) (Suc n) = line_at_offset (strip x) xs n"
  by (cases n) (simp_all add: line_at_offset_def)

lemma advance_offset: "advance n (Some l) fh = (line_at_offset l fh n, drop n fh)"
proof (induction n arbitrary: l fh)
  case 0
  show ?case by (simp add: line_at_offset_def)
next
  case (Suc n)
  show ?case
  proof (cases fh)
    case Nil
    then show ?thesis by (simp add: advance_None line_at_offset_def)
  next
    case (Cons x xs)
    with Suc.IH[of "strip x" xs] show ?thesis
      by (simp add: line_at_offset_Cons)
  qed
qed

lemma line_at_offset_None: "line_at_offset l fh n = None \<longleftrightarrow> length fh < n"
  by (auto simp: line_at_offset_def)

text \<open>
  C3 (as amended). When a line matches the marker pattern (and the pattern defines the
  repository group), the extractor reads exactly \<open>n\<close> lines forward, \<open>n\<close> being the
  configured offset (none for \<open>n \<le> 0\<close>), and tests the line it then holds against the
  title pattern: the line \<open>n\<close> positions below the marker. For the offset 0 that line is
  the marker line itself, not its successor.
\<close>

theorem autoclosed_title_line:
  assumes "dry_run_info_pattern_autoclosed cfg l = Some m"
    and "group_name m ''repository_name'' = Inr repository_name"
  shows "autoclosed_body cfg result l fh =
     (case line_at_offset l fh (nat (dry_run_info_autoclosed_pr_title_line_number cfg)) of
        None \<Rightarrow> Inl (AutoclosedOffsetMissingError (dry_run_info_autoclosed_pr_title_line_number cfg))
      | Some title_line \<Rightarrow>
          (case dry_run_info_autoclosed_pr_title_pattern cfg title_line of
             None \<Rightarrow>
               Inl (AutoclosedTitleNotFoundError
                      (dry_run_info_autoclosed_pr_title_line_number cfg) title_line)
           | Some m' \<Rightarrow>
               (case group_name m' ''pr_title'' of
                  Inl e \<Rightarrow> Inl e
                | Inr pr_title \<Rightarrow>
                    Inr (result @ [(repository_name, pr_title)], Some title_line,
                         drop (nat (dry_run_info_autoclosed_pr_title_line_number cfg)) fh))))
   \<and> line_at_offset l fh 0 = Some l"
  using assms
  by (simp add: autoclosed_body_def advance_offset line_at_offset_def
      split: option.splits sum.splits)

theorem autoclosed_title_line_witness:
  "autoclosed_body sample_config [] ''AUTOCLOSED r'' [''x'', ''TITLE t'', ''y'']
     = Inr ([(Some ''r'', Some ''t'')], Some ''TITLE t'', [''y''])"
proof -
  have m: "dry_run_info_pattern_autoclosed sample_config ''AUTOCLOSED r''
             = Some \<lparr>groups = [Some ''r''], groupdict = [(''repository_name'', Some ''r'')]\<rparr>"
    by (simp add: sample_config_def re_prefix_group_def Let_def)
  have g: "group_name \<lparr>groups = [Some ''r''], groupdict = [(''repository_name'', Some ''r'')]\<rparr>
             ''repository_name'' = Inr (Some ''r'')"
    by (simp add: group_name_def)
  from autoclosed_title_line[OF m g, of "[]" "[''x'', ''TITLE t'', ''y'']"]
  show ?thesis
    by (simp add: sample_config_def line_at_offset_def re_prefix_group_def group_name_def
        strip_def isspace_def Let_def)
qed

text \<open>
  The claim as stated fails for the offset 0: on the log of a marker line followed by a
  title line the extractor tests the marker line against the title pattern and fails with
  it, though the marker's successor matches the title pattern.
\<close>

theorem offset_zero_counterexample:
  "extract_and_process_autoclosed_dry_run_infos offset0_config [''AUTOCLOSED r'', ''TITLE t'']
     = Some (Inl (AutoclosedTitleNotFoundError 0 ''AUTOCLOSED r''))
   \<and> dry_run_info_autoclosed_pr_title_pattern offset0_config ''TITLE t'' \<noteq> None"
  by (simp add: extract_and_process_autoclosed_dry_run_infos_def autoclosed_while.simps
      autoclosed_body_def offset0_config_def sample_config_def re_prefix_group_def
      group_name_def strip_def isspace_def Let_def)

lemma autoclosed_body_result:
  "autoclosed_body cfg result l fh = Inr (result', line', fh') \<Longrightarrow> \<exists>ext. result' = result @ ext"
  by (auto simp: autoclosed_body_def split: option.splits sum.splits prod.splits)

lemma autoclosed_while_prefix_aux:
  "autoclosed_while cfg result line fh = Some y \<Longrightarrow>
   (\<forall>res. y = Inr res \<longrightarrow> (\<exists>ext. res = result @ ext))"
proof (induction rule: autoclosed_while.raw_induct[rotated 1, consumes 1])
  case (1 aw cfg result line fh y)
  show ?case
  proof (cases line)
    case None
    with "1.hyps" show ?thesis by auto
  next
    case (Some l)
    show ?thesis
    proof (cases "l = []")
      case True
      with Some "1.hyps" show ?thesis by auto
    next
      case False
      show ?thesis
      proof (cases "autoclosed_body cfg result l fh")
        case (Inl e)
        with Some False "1.hyps" show ?thesis by auto
      next
        case (Inr r)
        obtain result' line' fh' where r: "r = (result', line', fh')" by (cases r) auto
        from Some False Inr r "1.hyps" have "aw cfg result' line' fh' = Some y" by simp
        from "1.IH"[OF this] autoclosed_body_result[OF Inr[unfolded r]]
        show ?thesis by auto
      qed
    qed
  qed
qed

lemma autoclosed_while_prefix:
  "autoclosed_while cfg result line fh = Some (Inr res) \<Longrightarrow> \<exists>ext. res = result @ ext"
  using autoclosed_while_prefix_aux by blast

text \<open>
  The three outcomes at a marker. When the loop holds a line that matches the marker
  pattern (which defines the repository group), with the offset \<open>n\<close>: the line \<open>n\<close>
  positions forward is missing exactly when the file has fewer than \<open>n\<close> lines left,
  and then the extractor fails with \<open>AutoclosedOffsetMissingError n\<close>; when that line is
  there and does not match the title pattern, the extractor fails with
  \<open>AutoclosedTitleNotFoundError n\<close> and that line; otherwise (the title pattern defining
  the title group) the pair of repository and title is appended to the result and the
  loop goes on from the title line, so that a result, if the loop comes to one, has the
  pairs found so far, in their order, at its front.
\<close>

lemma autoclosed_marker_outcomes:
  assumes "l \<noteq> []"
    and "dry_run_info_pattern_autoclosed cfg l = Some m"
    and "group_name m ''repository_name'' = Inr repository_name"
    and "n = dry_run_info_autoclosed_pr_title_line_number cfg"
  shows "(line_at_offset l fh (nat n) = None \<longleftrightarrow> length fh < nat n)
    \<and> (line_at_offset l fh (nat n) = None \<longrightarrow>
         autoclosed_while cfg result (Some l) fh = Some (Inl (AutoclosedOffsetMissingError n)))
    \<and> (\<forall>title_line.
          line_at_offset l fh (nat n) = Some title_line \<and>
          dry_run_info_autoclosed_pr_title_pattern cfg title_line = None \<longrightarrow>
          autoclosed_while cfg result (Some l) fh =
            Some (Inl (AutoclosedTitleNotFoundError n title_line)))
    \<and> (\<forall>title_line m' pr_title.
          line_at_offset l fh (nat n) = Some title_line \<and>
          dry_run_info_autoclosed_pr_title_pattern cfg title_line = Some m' \<and>
          group_name m' ''pr_title'' = Inr pr_title \<longrightarrow>
          autoclosed_while cfg result (Some l) fh =
            autoclosed_while cfg (result @ [(repository_name, pr_title)]) (Some title_line)
              (drop (nat n) fh)
          \<and> (\<forall>res. autoclosed_while cfg result (Some l) fh = Some (Inr res) \<longrightarrow>
                (\<exists>ext. res = result @ [(repository_name, pr_title)] @ ext)))"
proof -
  have body: "autoclosed_body cfg result l fh =
     (case line_at_offset l fh (nat n) of
        None \<Rightarrow> Inl (AutoclosedOffsetMissingError n)
      | Some title_line \<Rightarrow>
          (case dry_run_info_autoclosed_pr_title_pattern cfg title_line of
             None \<Rightarrow> Inl (AutoclosedTitleNotFoundError n title_line)
           | Some m' \<Rightarrow>
               (case group_name m' ''pr_title'' of
                  Inl e \<Rightarrow> Inl e
                | Inr pr_title \<Rightarrow>
                    Inr (result @ [(repository_name, pr_title)], Some title_line,
                         drop (nat n) fh))))"
    using assms(2,3,4)
    by (simp add: autoclosed_body_def advance_offset line_at_offset_def
        split: option.splits sum.splits)
  have unf: "autoclosed_while cfg result (Some l) fh =
      (case autoclosed_body cfg result l fh of
         Inl e \<Rightarrow> Some (Inl e)
       | Inr (result', line', fh') \<Rightarrow> autoclosed_while cfg result' line' fh')"
    using assms(1) by (subst autoclosed_while.simps) simp
  have a: "line_at_offset l fh (nat n) = None \<longleftrightarrow> length fh < nat n"
    by (rule line_at_offset_None)
  have b: "line_at_offset l fh (nat n) = None \<longrightarrow>
         autoclosed_while cfg result (Some l) fh = Some (Inl (AutoclosedOffsetMissingError n))"
    by (simp add: unf body)
  have c: "\<forall>title_line.
          line_at_offset l fh (nat n) = Some title_line \<and>
          dry_run_info_autoclosed_pr_title_pattern cfg title_line = None \<longrightarrow>
          autoclosed_while cfg result (Some l) fh =
            Some (Inl (AutoclosedTitleNotFoundError n title_line))"
    by (simp add: unf body)
  have d1: "autoclosed_while cfg result (Some l) fh =
            autoclosed_while cfg (result @ [(repository_name, pr_title)]) (Some title_line)
              (drop (nat n) fh)"
    if "line_at_offset l fh (nat n) = Some title_line"
      "dry_run_info_autoclosed_pr_title_pattern cfg title_line = Some m'"
      "group_name m' ''pr_title'' = Inr pr_title" for title_line m' pr_title
    using that by (simp add: unf body)
  have d2: "\<exists>ext. res = result @ [(repository_name, pr_title)] @ ext"
    if "line_at_offset l fh (nat n) = Some title_line"
      "dry_run_info_autoclosed_pr_title_pattern cfg title_line = Some m'"
      "group_name m' ''pr_title'' = Inr pr_title"
      "autoclosed_while cfg result (Some l) fh = Some (Inr res)" for title_line m' pr_title res
    using autoclosed_while_prefix[of cfg "result @ [(repository_name, pr_title)]"
        "Some title_line" "drop (nat n) fh" res] d1[OF that(1,2,3)] that(4)
    by simp
  from a b c d1 d2 show ?thesis by blast
qed

lemma autoclosed_marker_outcomes_sample:
  "autoclosed_while sample_config [] (Some ''AUTOCLOSED r'') [''x'', ''TITLE t'']
     = Some (Inr [(Some ''r'', Some ''t'')])"
proof -
  have l: "''AUTOCLOSED r'' \<noteq> []" by simp
  have m: "dry_run_info_pattern_autoclosed sample_config ''AUTOCLOSED r''
             = Some \<lparr>groups = [Some ''r''], groupdict = [(''repository_name'', Some ''r'')]\<rparr>"
    by (simp add: sample_config_def re_prefix_group_def Let_def)
  have g: "group_name \<lparr>groups = [Some ''r''], groupdict = [(''repository_name'', Some ''r'')]\<rparr>
             ''repository_name'' = Inr (Some ''r'')"
    by (simp add: group_name_def)
  have n: "(2::int) = dry_run_info_autoclosed_pr_title_line_number sample_config"
    by (simp add: sample_config_def)
  have t: "line_at_offset ''AUTOCLOSED r'' [''x'', ''TITLE t''] (nat 2) = Some ''TITLE t''"
    by (simp add: line_at_offset_def strip_def isspace_def)
  have m': "dry_run_info_autoclosed_pr_title_pattern sample_config ''TITLE t''
             = Some \<lparr>groups = [Some ''t''], groupdict = [(''pr_title'', Some ''t'')]\<rparr>"
    by (simp add: sample_config_def re_prefix_group_def Let_def)
  have g': "group_name \<lparr>groups = [Some ''t''], groupdict = [(''pr_title'', Some ''t'')]\<rparr>
             ''pr_title'' = Inr (Some ''t'')"
    by (simp add: group_name_def)
  from autoclosed_marker_outcomes[OF l m g n, of "[''x'', ''TITLE t'']" "[]"] t m' g'
  have "autoclosed_while sample_config [] (Some ''AUTOCLOSED r'') [''x'', ''TITLE t'']
          = autoclosed_while sample_config ([] @ [(Some ''r'', Some ''t'')]) (Some ''TITLE t'')
              (drop (nat 2) [''x'', ''TITLE t''])"
    by blast
  also have "\<dots> = Some (Inr [(Some ''r'', Some ''t'')])"
    by (simp add: autoclosed_while.simps autoclosed_body_def sample_config_def
        re_prefix_group_def Let_def)
  finally show ?thesis .
qed

text \<open>
  With an offset of at least 1 the loop comes to an end on every file: the body either
  fails or leaves fewer lines to read than it found. So the third outcome is a result
  (or a failure at a later marker), and a result has the pair in its place.
\<close>

lemma autoclosed_body_size:
  assumes "0 < dry_run_info_autoclosed_pr_title_line_number cfg"
    and "autoclosed_body cfg result l fh = Inr (result', line', fh')"
  shows "cursor_size line' fh' \<le> length fh"
proof (cases "dry_run_info_pattern_autoclosed cfg l")
  case None
  with assms(2) have "(line', fh') = get_next_line fh"
    by (auto simp: autoclosed_body_def split: prod.splits)
  then show ?thesis by (rule get_next_line_size)
next
  case (Some m)
  let ?n = "nat (dry_run_info_autoclosed_pr_title_line_number cfg)"
  from Some assms(2) have "fh' = drop ?n fh" and "line_at_offset l fh ?n \<noteq> None"
    by (auto simp: autoclosed_body_def advance_offset split: sum.splits option.splits)
  with assms(1) have "fh' = drop ?n fh" "0 < ?n" "?n \<le> length fh"
    by (simp_all add: line_at_offset_None)
  then show ?thesis
    by (cases line') (auto simp: cursor_size_def)
qed

lemma autoclosed_while_returns:
  assumes "0 < dry_run_info_autoclosed_pr_title_line_number cfg"
  shows "\<exists>y. autoclosed_while cfg result line fh = Some y"
proof (induction "cursor_size line fh" arbitrary: result line fh rule: less_induct)
  case less
  show ?case
  proof (cases "truthy line")
    case False
    then show ?thesis
      by (subst autoclosed_while.simps) (simp add: truthy_def split: option.splits)
  next
    case True
    then obtain l where l: "line = Some l" "l \<noteq> []"
      by (auto simp: truthy_def split: option.splits)
    show ?thesis
    proof (cases "autoclosed_body cfg result l fh")
      case (Inl e)
      with l show ?thesis by (subst autoclosed_while.simps) simp
    next
      case (Inr r)
      obtain result' line' fh' where r: "r = (result', line', fh')" by (cases r) auto
      from autoclosed_body_size[OF assms Inr[unfolded r]] l
      have "cursor_size line' fh' < cursor_size line fh" by (simp add: cursor_size_def)
      from less[OF this] obtain y where "autoclosed_while cfg result' line' fh' = Some y" by blast
      with l Inr r show ?thesis by (subst autoclosed_while.simps) simp
    qed
  qed
qed

lemma autoclosed_marker_appended:
  assumes "0 < dry_run_info_autoclosed_pr_title_line_number cfg"
    and "l \<noteq> []"
    and "dry_run_info_pattern_autoclosed cfg l = Some m"
    and "group_name m ''repository_name'' = Inr repository_name"
    and "line_at_offset l fh (nat (dry_run_info_autoclosed_pr_title_line_number cfg)) = Some title_line"
    and "dry_run_info_autoclosed_pr_title_pattern cfg title_line = Some m'"
    and "group_name m' ''pr_title'' = Inr pr_title"
  shows "\<exists>y. autoclosed_while cfg result (Some l) fh = Some y \<and>
           (\<forall>res. y = Inr res \<longrightarrow> (\<exists>ext. res = result @ [(repository_name, pr_title)] @ ext))"
proof -
  from autoclosed_while_returns[OF assms(1)] obtain y
    where y: "autoclosed_while cfg result (Some l) fh = Some y" by blast
  from autoclosed_marker_outcomes[OF assms(2,3,4) refl, of fh result] assms(5,6,7) y
  have "\<forall>res. y = Inr res \<longrightarrow> (\<exists>ext. res = result @ [(repository_name, pr_title)] @ ext)"
    by blast
  with y show ?thesis by blast
qed

text \<open>
  With an offset of 0 (or below) the body reads no line. When the marker line matches
  the title pattern as well, the body appends the pair and leaves the line in hand and
  the file as they were, and the loop, which tests the same line again, never ends.
\<close>

lemma autoclosed_body_same_line:
  assumes "dry_run_info_autoclosed_pr_title_line_number cfg \<le> 0"
    and "dry_run_info_pattern_autoclosed cfg l = Some m"
    and "group_name m ''repository_name'' = Inr repository_name"
    and "dry_run_info_autoclosed_pr_title_pattern cfg l = Some m'"
    and "group_name m' ''pr_title'' = Inr pr_title"
  shows "autoclosed_body cfg result l fh = Inr (result @ [(repository_name, pr_title)], Some l, fh)"
  using assms by (simp add: autoclosed_body_def)

lemma autoclosed_while_same_line_aux:
  "autoclosed_while cfg result line fh = Some y \<Longrightarrow>
   dry_run_info_autoclosed_pr_title_line_number cfg \<le> 0 \<longrightarrow>
   (\<forall>l. line = Some l \<and> l \<noteq> [] \<and>
      (\<exists>m r. dry_run_info_pattern_autoclosed cfg l = Some m \<and>
              group_name m ''repository_name'' = Inr r) \<and>
      (\<exists>m' t. dry_run_info_autoclosed_pr_title_pattern cfg l = Some m' \<and>
               group_name m' ''pr_title'' = Inr t) \<longrightarrow> False)"
proof (induction rule: autoclosed_while.raw_induct[rotated 1, consumes 1])
  case (1 aw cfg result line fh y)
  show ?case
  proof (intro impI allI)
    fix l
    assume n: "dry_run_info_autoclosed_pr_title_line_number cfg \<le> 0"
      and h: "line = Some l \<and> l \<noteq> [] \<and>
        (\<exists>m r. dry_run_info_pattern_autoclosed cfg l = Some m \<and>
                group_name m ''repository_name'' = Inr r) \<and>
        (\<exists>m' t. dry_run_info_autoclosed_pr_title_pattern cfg l = Some m' \<and>
                 group_name m' ''pr_title'' = Inr t)"
    then obtain m r m' t where m: "dry_run_info_pattern_autoclosed cfg l = Some m"
      "group_name m ''repository_name'' = Inr r"
      "dry_run_info_autoclosed_pr_title_pattern cfg l = Some m'"
      "group_name m' ''pr_title'' = Inr t" by blast
    from h "1.hyps" autoclosed_body_same_line[OF n m, of result fh]
    have "aw cfg (result @ [(r, t)]) (Some l) fh = Some y" by simp
    from "1.IH"[OF this] n h show False by blast
  qed
qed

lemma autoclosed_while_same_line:
  assumes "dry_run_info_autoclosed_pr_title_line_number cfg \<le> 0"
    and "l \<noteq> []"
    and "dry_run_info_pattern_autoclosed cfg l = Some m"
    and "group_name m ''repository_name'' = Inr repository_name"
    and "dry_run_info_autoclosed_pr_title_pattern cfg l = Some m'"
    and "group_name m' ''pr_title'' = Inr pr_title"
  shows "autoclosed_while cfg result (Some l) fh = None"
proof (cases "autoclosed_while cfg result (Some l) fh")
  case None
  then show ?thesis .
next
  case (Some y)
  from autoclosed_while_same_line_aux[OF Some] assms show ?thesis by blast
qed

text \<open>
  C5. At a marker whose title line is there and matches the title pattern, the extractor
  has to append the pair of repository and title to the result, once, and go on to return
  the result. For the offsets from 1 on it does (the lemmas above). For the offset 0 it
  does not when the title stands on the marker line itself: on the log of the one line
  \<^verbatim>\<open>AUTOCLOSED r\<close>, which matches the marker pattern and the title pattern, one turn
  of the loop appends the pair and leaves the line in hand, and the extractor never
  returns.
\<close>

theorem same_line_title_never_returns:
  "extract_and_process_autoclosed_dry_run_infos same_line_config [''AUTOCLOSED r''] = None
   \<and> autoclosed_body same_line_config [] ''AUTOCLOSED r'' []
       = Inr ([(Some ''r'', Some ''r'')], Some ''AUTOCLOSED r'', [])"
proof -
  have n: "dry_run_info_autoclosed_pr_title_line_number same_line_config \<le> 0"
    by (simp add: same_line_config_def)
  have l: "''AUTOCLOSED r'' \<noteq> []" by simp
  have m: "dry_run_info_pattern_autoclosed same_line_config ''AUTOCLOSED r''
             = Some \<lparr>groups = [Some ''r''], groupdict = [(''repository_name'', Some ''r'')]\<rparr>"
    by (simp add: same_line_config_def sample_config_def re_prefix_group_def Let_def)
  have g: "group_name \<lparr>groups = [Some ''r''], groupdict = [(''repository_name'', Some ''r'')]\<rparr>
             ''repository_name'' = Inr (Some ''r'')"
    by (simp add: group_name_def)
  have m': "dry_run_info_autoclosed_pr_title_pattern same_line_config ''AUTOCLOSED r''
             = Some \<lparr>groups = [Some ''r''], groupdict = [(''pr_title'', Some ''r'')]\<rparr>"
    by (simp add: same_line_config_def sample_config_def re_prefix_group_def Let_def)
  have g': "group_name \<lparr>groups = [Some ''r''], groupdict = [(''pr_title'', Some ''r'')]\<rparr>
             ''pr_title'' = Inr (Some ''r'')"
    by (simp add: group_name_def)
  have a: "extract_and_process_autoclosed_dry_run_infos same_line_config [''AUTOCLOSED r''] = None"
    using autoclosed_while_same_line[OF n l m g m' g', of "[]" "[]"]
    by (simp add: extract_and_process_autoclosed_dry_run_infos_def strip_def isspace_def Let_def)
  have b: "autoclosed_body same_line_config [] ''AUTOCLOSED r'' []
       = Inr ([(Some ''r'', Some ''r'')], Some ''AUTOCLOSED r'', [])"
    using autoclosed_body_same_line[OF n m g m' g', of "[]" "[]"] by simp
  from a b show ?thesis by simp
qed

section \<open>Properties of the dry-run event index\<close>

lemma group_name_undefined:
  "map_of (groupdict m) name = None \<Longrightarrow> group_name m name = Inl NoSuchGroupError"
  by (simp add: group_name_def)

lemma group_name_cases:
  "group_name m name = Inl NoSuchGroupError \<or> (\<exists>v. group_name m name = Inr v)"
  by (simp add: group_name_def split: option.splits)

lemma general_while_prefix:
  "general_while cfg infos line fh = Inr res \<Longrightarrow> \<exists>ext. res = infos @ ext"
proof (induction cfg infos line fh rule: general_while.induct)
  case (1 cfg infos line fh)
  note eq = "1.prems"[unfolded general_while.simps[of cfg infos line fh]]
  show ?case
  proof (cases line)
    case None
    with eq show ?thesis by auto
  next
    case (Some l)
    show ?thesis
    proof (cases "l = []")
      case True
      with Some eq show ?thesis by auto
    next
      case False
      obtain ln fl where g: "(ln, fl) = get_next_line fh" by (cases "get_next_line fh") auto
      show ?thesis
      proof (cases "dry_run_info_pattern_general cfg l")
        case None
        with Some False g[symmetric] eq
        have "general_while cfg infos ln fl = Inr res" by simp
        from "1.IH"(1)[OF Some False None g this] show ?thesis .
      next
        case (Some m)
        from \<open>line = Some l\<close> False Some g[symmetric] eq
        obtain r b i where r: "group_name m ''repository_name'' = Inr r"
          and b: "group_name m ''branch_name'' = Inr b"
          and i: "group_name m ''info'' = Inr i"
          and w: "general_while cfg (infos @ [(r, b, i)]) ln fl = Inr res"
          by (auto split: sum.splits)
        from "1.IH"(2)[OF \<open>line = Some l\<close> False Some r b i g w] show ?thesis by auto
      qed
    qed
  qed
qed

text \<open>
  C8 (as amended). The general-info pattern has to define the three named groups
  \<^verbatim>\<open>repository_name\<close>, \<^verbatim>\<open>branch_name\<close> and \<^verbatim>\<open>info\<close>. For a matching line, each group
  that the pattern defines but that took no part in the match is an absent field of the
  event recorded (the event is appended and is part of every result returned); when the
  pattern leaves one of the three groups out, the scan fails at the first matching line
  with the \<^verbatim>\<open>IndexError\<close> of \<^verbatim>\<open>match.group\<close>.
\<close>

theorem general_event_fields:
  assumes "l \<noteq> []"
    and "dry_run_info_pattern_general cfg l = Some m"
  shows "(\<forall>repository_name branch_name info.
           group_name m ''repository_name'' = Inr repository_name \<and>
           group_name m ''branch_name'' = Inr branch_name \<and>
           group_name m ''info'' = Inr info \<longrightarrow>
           general_while cfg dry_run_infos (Some l) fh =
             general_while cfg (dry_run_infos @ [(repository_name, branch_name, info)])
               (fst (get_next_line fh)) (snd (get_next_line fh))
           \<and> (\<forall>res. general_while cfg dry_run_infos (Some l) fh = Inr res \<longrightarrow>
                 (\<exists>ext. res = dry_run_infos @ [(repository_name, branch_name, info)] @ ext)))
    \<and> (map_of (groupdict m) ''repository_name'' = None \<or>
        map_of (groupdict m) ''branch_name'' = None \<or>
        map_of (groupdict m) ''info'' = None \<longrightarrow>
        general_while cfg dry_run_infos (Some l) fh = Inl NoSuchGroupError)"
proof -
  have unf: "general_while cfg dry_run_infos (Some l) fh =
      (case group_name m ''repository_name'' of
         Inl e \<Rightarrow> Inl e
       | Inr repository_name \<Rightarrow>
      (case group_name m ''branch_name'' of
         Inl e \<Rightarrow> Inl e
       | Inr branch_name \<Rightarrow>
      (case group_name m ''info'' of
         Inl e \<Rightarrow> Inl e
       | Inr info \<Rightarrow>
           general_while cfg (dry_run_infos @ [(repository_name, branch_name, info)])
             (fst (get_next_line fh)) (snd (get_next_line fh)))))"
    using assms by (subst general_while.simps) (simp split: sum.splits prod.splits)
  have a: "general_while cfg dry_run_infos (Some l) fh =
             general_while cfg (dry_run_infos @ [(r, b, i)])
               (fst (get_next_line fh)) (snd (get_next_line fh))"
    if "group_name m ''repository_name'' = Inr r" "group_name m ''branch_name'' = Inr b"
      "group_name m ''info'' = Inr i" for r b i
    using that by (simp add: unf)
  have b: "\<exists>ext. res = dry_run_infos @ [(r, b, i)] @ ext"
    if "group_name m ''repository_name'' = Inr r" "group_name m ''branch_name'' = Inr b"
      "group_name m ''info'' = Inr i" "general_while cfg dry_run_infos (Some l) fh = Inr res"
    for r b i res
    using general_while_prefix[of cfg "dry_run_infos @ [(r, b, i)]" "fst (get_next_line fh)"
        "snd (get_next_line fh)" res] a[OF that(1,2,3)] that(4)
    by simp
  have c: "general_while cfg dry_run_infos (Some l) fh = Inl NoSuchGroupError"
    if "map_of (groupdict m) ''repository_name'' = None \<or>
        map_of (groupdict m) ''branch_name'' = None \<or>
        map_of (groupdict m) ''info'' = None"
    using that group_name_cases[of m "''repository_name''"] group_name_cases[of m "''branch_name''"]
      group_name_cases[of m "''info''"]
    by (auto simp: unf dest: group_name_undefined)
  from a b c show ?thesis by blast
qed

theorem general_event_fields_witness:
  "general_while sample_config [] (Some ''repo branch'') [] = Inr [(Some ''repo'', Some ''branch'', None)]"
proof -
  let ?m = "\<lparr>groups = [Some ''repo'', Some ''branch'', None],
             groupdict = [(''repository_name'', Some ''repo''), (''branch_name'', Some ''branch''),
                          (''info'', None)]\<rparr>"
  have l: "''repo branch'' \<noteq> []" by simp
  have m: "dry_run_info_pattern_general sample_config ''repo branch'' = Some ?m"
    by (simp add: sample_config_def re_repo_branch_info_def not_blank_char_def Let_def)
  have g: "group_name ?m ''repository_name'' = Inr (Some ''repo'')
           \<and> group_name ?m ''branch_name'' = Inr (Some ''branch'')
           \<and> group_name ?m ''info'' = Inr None"
    by (simp add: group_name_def)
  from general_event_fields[OF l m, of "[]" "[]", THEN conjunct1, rule_format, OF g, THEN conjunct1]
  have "general_while sample_config [] (Some ''repo branch'') []
          = general_while sample_config [(Some ''repo'', Some ''branch'', None)] None []"
    by simp
  also have "\<dots> = Inr [(Some ''repo'', Some ''branch'', None)]"
    by (simp add: general_while.simps)
  finally show ?thesis .
qed

text \<open>
  The claim as stated fails: with the pattern that leaves the capture \<^verbatim>\<open>info\<close> out, the
  line matches and the scan fails instead of recording an event without info.
\<close>

theorem omitted_capture_counterexample:
  "extract_general_dry_run_infos no_info_config [''repo branch''] = Inl NoSuchGroupError
   \<and> dry_run_info_pattern_general no_info_config ''repo branch''
       = Some \<lparr>groups = [Some ''repo'', Some ''branch''],
               groupdict = [(''repository_name'', Some ''repo''), (''branch_name'', Some ''branch'')]\<rparr>"
  by (simp add: extract_general_dry_run_infos_def general_while.simps no_info_config_def
      sample_config_def re_repo_branch_def not_blank_char_def group_name_def strip_def
      isspace_def Let_def)

section \<open>The scans and blank lines\<close>

lemma get_next_line_until_blank:
  "blank b \<Longrightarrow> same_until_blank b post (get_next_line fh) (get_next_line (fh @ b # post))"
  by (cases fh) (simp_all add: same_until_blank_def blank_def)

lemma same_until_blank_Some:
  "same_until_blank b post (Some l, fh) c' \<Longrightarrow> l \<noteq> [] \<Longrightarrow> c' = (Some l, fh @ b # post)"
  by (cases c') (auto simp: same_until_blank_def)

lemma same_until_blank_falsy:
  "same_until_blank b post (line, fh) (line', fh') \<Longrightarrow> \<not> truthy line \<Longrightarrow> \<not> truthy line'"
  by (auto simp: same_until_blank_def truthy_def split: option.splits)

lemma inner_while_falsy:
  "\<not> truthy line \<Longrightarrow> inner_while cfg r ss s line fh = (ss, s, line, fh)"
  by (subst inner_while.simps) (simp add: truthy_def split: option.splits)

lemma outer_while_falsy:
  "\<not> truthy line \<Longrightarrow> outer_while cfg ss s r line fh = while_else ss r"
  by (subst outer_while.simps) (simp add: truthy_def split: option.splits)

lemma general_while_falsy:
  "\<not> truthy line \<Longrightarrow> general_while cfg infos line fh = Inr infos"
  by (subst general_while.simps) (simp add: truthy_def split: option.splits)

lemma autoclosed_while_falsy:
  "\<not> truthy line \<Longrightarrow> autoclosed_while cfg result line fh = Some (Inr result)"
  by (subst autoclosed_while.simps) (simp add: truthy_def split: option.splits)

lemma truthy_Some: "truthy (Some l) \<longleftrightarrow> l \<noteq> []"
  by (simp add: truthy_def)

lemma inner_while_until_blank:
  assumes "blank b"
  shows "same_until_blank b post (line, fh) (line2, fh2) \<Longrightarrow>
    \<exists>ss' s' c c'. inner_while cfg r ss s line fh = (ss', s', c) \<and>
                  inner_while cfg r ss s line2 fh2 = (ss', s', c') \<and>
                  same_until_blank b post c c'"
proof (induction cfg r ss s line fh arbitrary: line2 fh2 rule: inner_while.induct)
  case (1 cfg r ss s line fh)
  show ?case
  proof (cases "truthy line")
    case False
    with "1.prems" have "\<not> truthy line2" by (rule same_until_blank_falsy)
    with False "1.prems" show ?thesis by (simp add: inner_while_falsy)
  next
    case True
    then obtain l where l: "line = Some l" "l \<noteq> []"
      by (auto simp: truthy_def split: option.splits)
    with "1.prems" have c2: "line2 = Some l" "fh2 = fh @ b # post"
      using same_until_blank_Some[of b post l fh "(line2, fh2)"] by auto
    obtain ln fl where g: "(ln, fl) = get_next_line fh" by (cases "get_next_line fh") auto
    obtain ln2 fl2 where g2: "(ln2, fl2) = get_next_line (fh @ b # post)"
      by (cases "get_next_line (fh @ b # post)") auto
    have rel: "same_until_blank b post (ln, fl) (ln2, fl2)"
      using get_next_line_until_blank[OF assms, of post fh] g g2 by simp
    show ?thesis
    proof (cases "is_match (branches_info_end_pattern cfg) l")
      case True
      have "inner_while cfg r ss s line fh = (AList.update r s ss, [], ln, fl)"
        using l True g[symmetric] by (subst inner_while.simps) simp
      moreover have "inner_while cfg r ss s line2 fh2 = (AList.update r s ss, [], ln2, fl2)"
        using l c2 True g2[symmetric] by (subst inner_while.simps) simp
      ultimately show ?thesis using rel by simp
    next
      case False
      have a: "inner_while cfg r ss s line fh = inner_while cfg r ss (s @ [l]) ln fl"
        using l False g[symmetric] by (subst inner_while.simps) simp
      have b: "inner_while cfg r ss s line2 fh2 = inner_while cfg r ss (s @ [l]) ln2 fl2"
        using l c2 False g2[symmetric] by (subst inner_while.simps) simp
      from "1.IH"[OF l(1) l(2) False g rel] a b show ?thesis by simp
    qed
  qed
qed

lemma outer_while_until_blank:
  assumes "blank b"
  shows "same_until_blank b post (line, fh) (line2, fh2) \<Longrightarrow>
    outer_while cfg ss s r line2 fh2 = outer_while cfg ss s r line fh"
proof (induction cfg ss s r line fh arbitrary: line2 fh2 rule: outer_while.induct)
  case (1 cfg ss s r line fh)
  show ?case
  proof (cases "truthy line")
    case False
    with "1.prems" have "\<not> truthy line2" by (rule same_until_blank_falsy)
    with False show ?thesis by (simp add: outer_while_falsy)
  next
    case True
    then obtain l where l: "line = Some l" "l \<noteq> []"
      by (auto simp: truthy_def split: option.splits)
    with "1.prems" have c2: "line2 = Some l" "fh2 = fh @ b # post"
      using same_until_blank_Some[of b post l fh "(line2, fh2)"] by auto
    obtain ln fl where g: "(ln, fl) = get_next_line fh" by (cases "get_next_line fh") auto
    obtain ln2 fl2 where g2: "(ln2, fl2) = get_next_line (fh @ b # post)"
      by (cases "get_next_line (fh @ b # post)") auto
    have rel: "same_until_blank b post (ln, fl) (ln2, fl2)"
      using get_next_line_until_blank[OF assms, of post fh] g g2 by simp
    show ?thesis
    proof (cases "is_match (branches_info_start_pattern cfg) l")
      case False
      have a: "outer_while cfg ss s r line fh = outer_while cfg ss s r ln fl"
        using l False g[symmetric] by (subst outer_while.simps) simp
      have b: "outer_while cfg ss s r line2 fh2 = outer_while cfg ss s r ln2 fl2"
        using l c2 False g2[symmetric] by (subst outer_while.simps) simp
      from "1.IH"(2)[OF l(1) l(2) False g rel] a b show ?thesis by simp
    next
      case True
      show ?thesis
      proof (cases "extract_repository_name l (repository_name_pattern cfg)")
        case (Inl e)
        have "outer_while cfg ss s r line fh = Inl e"
          using l True Inl by (subst outer_while.simps) simp
        moreover have "outer_while cfg ss s r line2 fh2 = Inl e"
          using l c2 True Inl by (subst outer_while.simps) simp
        ultimately show ?thesis by simp
      next
        case (Inr name)
        from inner_while_until_blank[OF assms rel, of cfg name ss s]
        obtain ss' s' ln' fl' ln2' fl2' where
          i1: "inner_while cfg name ss s ln fl = (ss', s', ln', fl')" and
          i2: "inner_while cfg name ss s ln2 fl2 = (ss', s', ln2', fl2')" and
          rel': "same_until_blank b post (ln', fl') (ln2', fl2')"
          by (metis surj_pair)
        have a: "outer_while cfg ss s r line fh = outer_while cfg ss' s' name ln' fl'"
          using l True Inr g[symmetric] i1 by (subst outer_while.simps) simp
        have b: "outer_while cfg ss s r line2 fh2 = outer_while cfg ss' s' name ln2' fl2'"
          using l c2 True Inr g2[symmetric] i2 by (subst outer_while.simps) simp
        have "outer_while cfg ss' s' name ln2' fl2' = outer_while cfg ss' s' name ln' fl'"
          by (rule "1.IH"(1)[OF l(1) l(2) True Inr g _ _ _ rel'])
             (simp_all add: i1)
        with a b show ?thesis by simp
      qed
    qed
  qed
qed

lemma find_branches_lists_until_blank:
  assumes "blank b"
  shows "find_branches_lists cfg (pre @ b # post) = find_branches_lists cfg pre"
proof -
  obtain ln fl where g: "get_next_line pre = (ln, fl)" by (cases "get_next_line pre") auto
  obtain ln2 fl2 where g2: "get_next_line (pre @ b # post) = (ln2, fl2)"
    by (cases "get_next_line (pre @ b # post)") auto
  have rel: "same_until_blank b post (ln, fl) (ln2, fl2)"
    using get_next_line_until_blank[OF assms, of post pre] g g2 by simp
  have t: "truthy ln2 = truthy ln"
    using rel by (auto simp: same_until_blank_def truthy_def)
  show ?thesis
    using outer_while_until_blank[OF assms rel] t
    by (simp add: find_branches_lists_def g g2)
qed

lemma general_while_until_blank:
  assumes "blank b"
  shows "same_until_blank b post (line, fh) (line2, fh2) \<Longrightarrow>
    general_while cfg infos line2 fh2 = general_while cfg infos line fh"
proof (induction cfg infos line fh arbitrary: line2 fh2 rule: general_while.induct)
  case (1 cfg infos line fh)
  show ?case
  proof (cases "truthy line")
    case False
    with "1.prems" have "\<not> truthy line2" by (rule same_until_blank_falsy)
    with False show ?thesis by (simp add: general_while_falsy)
  next
    case True
    then obtain l where l: "line = Some l" "l \<noteq> []"
      by (auto simp: truthy_def split: option.splits)
    with "1.prems" have c2: "line2 = Some l" "fh2 = fh @ b # post"
      using same_until_blank_Some[of b post l fh "(line2, fh2)"] by auto
    obtain ln fl where g: "(ln, fl) = get_next_line fh" by (cases "get_next_line fh") auto
    obtain ln2 fl2 where g2: "(ln2, fl2) = get_next_line (fh @ b # post)"
      by (cases "get_next_line (fh @ b # post)") auto
    have rel: "same_until_blank b post (ln, fl) (ln2, fl2)"
      using get_next_line_until_blank[OF assms, of post fh] g g2 by simp
    show ?thesis
    proof (cases "dry_run_info_pattern_general cfg l")
      case None
      have a: "general_while cfg infos line fh = general_while cfg infos ln fl"
        using l None g[symmetric] by (subst general_while.simps) simp
      have b: "general_while cfg infos line2 fh2 = general_while cfg infos ln2 fl2"
        using l c2 None g2[symmetric] by (subst general_while.simps) simp
      from "1.IH"(1)[OF l(1) l(2) None g rel] a b show ?thesis by simp
    next
      case (Some m)
      show ?thesis
      proof (cases "\<exists>r b i. group_name m ''repository_name'' = Inr r \<and>
                      group_name m ''branch_name'' = Inr b \<and> group_name m ''info'' = Inr i")
        case False
        have "general_while cfg infos line fh = Inl NoSuchGroupError"
          using l Some False group_name_cases[of m "''repository_name''"]
            group_name_cases[of m "''branch_name''"] group_name_cases[of m "''info''"]
          by (subst general_while.simps) (auto split: sum.splits)
        moreover have "general_while cfg infos line2 fh2 = Inl NoSuchGroupError"
          using l c2 Some False group_name_cases[of m "''repository_name''"]
            group_name_cases[of m "''branch_name''"] group_name_cases[of m "''info''"]
          by (subst general_while.simps) (auto split: sum.splits)
        ultimately show ?thesis by simp
      next
        case True
        then obtain r br i where grp: "group_name m ''repository_name'' = Inr r"
          "group_name m ''branch_name'' = Inr br" "group_name m ''info'' = Inr i"
          by blast
        have a: "general_while cfg infos line fh = general_while cfg (infos @ [(r, br, i)]) ln fl"
          using l Some grp g[symmetric] by (subst general_while.simps) simp
        have b: "general_while cfg infos line2 fh2 = general_while cfg (infos @ [(r, br, i)]) ln2 fl2"
          using l c2 Some grp g2[symmetric] by (subst general_while.simps) simp
        from "1.IH"(2)[OF l(1) l(2) Some grp g rel] a b show ?thesis by simp
      qed
    qed
  qed
qed

lemma extract_general_until_blank:
  assumes "blank b"
  shows "extract_general_dry_run_infos cfg (pre @ b # post) = extract_general_dry_run_infos cfg pre"
proof -
  obtain ln fl where g: "get_next_line pre = (ln, fl)" by (cases "get_next_line pre") auto
  obtain ln2 fl2 where g2: "get_next_line (pre @ b # post) = (ln2, fl2)"
    by (cases "get_next_line (pre @ b # post)") auto
  have rel: "same_until_blank b post (ln, fl) (ln2, fl2)"
    using get_next_line_until_blank[OF assms, of post pre] g g2 by simp
  show ?thesis
    using general_while_until_blank[OF assms rel]
    by (simp add: extract_general_dry_run_infos_def g g2)
qed

lemma line_at_offset_append:
  "line_at_offset l fh n = Some t \<Longrightarrow> line_at_offset l (fh @ ext) n = Some t"
  by (auto simp: line_at_offset_def nth_append split: if_splits)

lemma line_at_offset_drop:
  "line_at_offset l fh n = Some t \<Longrightarrow> drop n (fh @ ext) = drop n fh @ ext"
  by (auto simp: line_at_offset_def split: if_splits)

lemma autoclosed_body_until_blank:
  assumes "blank b"
    and "autoclosed_body cfg result l fh = Inr (result', c)"
  shows "\<exists>c'. autoclosed_body cfg result l (fh @ b # post) = Inr (result', c') \<and>
              same_until_blank b post c c'"
proof (cases "dry_run_info_pattern_autoclosed cfg l")
  case None
  with assms(2) get_next_line_until_blank[OF assms(1), of post fh] show ?thesis
    by (auto simp: autoclosed_body_def split: prod.splits)
next
  case (Some m)
  let ?n = "nat (dry_run_info_autoclosed_pr_title_line_number cfg)"
  from assms(2) Some obtain repo t m' title where
    f: "group_name m ''repository_name'' = Inr repo" "line_at_offset l fh ?n = Some t"
      "dry_run_info_autoclosed_pr_title_pattern cfg t = Some m'"
      "group_name m' ''pr_title'' = Inr title"
      "result' = result @ [(repo, title)]" "c = (Some t, drop ?n fh)"
    by (auto simp: autoclosed_body_def advance_offset split: sum.splits option.splits)
  have "autoclosed_body cfg result l (fh @ b # post) =
          Inr (result', Some t, drop ?n fh @ b # post)"
    using Some f line_at_offset_append[OF f(2), of "b # post"]
      line_at_offset_drop[OF f(2), of "b # post"]
    by (simp add: autoclosed_body_def advance_offset)
  with f(6) show ?thesis by (simp add: same_until_blank_def)
qed

lemma autoclosed_body_error_until_blank:
  assumes "autoclosed_body cfg result l fh = Inl e"
    and "\<forall>n. e \<noteq> AutoclosedOffsetMissingError n"
  shows "autoclosed_body cfg result l (fh @ ext) = Inl e"
  using assms
  by (auto simp: autoclosed_body_def advance_offset line_at_offset_append
      split: sum.splits option.splits prod.splits)

lemma autoclosed_while_until_blank_aux:
  assumes "blank b"
  shows "autoclosed_while cfg result line fh = Some y \<Longrightarrow>
    (\<forall>n. y \<noteq> Inl (AutoclosedOffsetMissingError n)) \<longrightarrow>
    (\<forall>c'. same_until_blank b post (line, fh) c' \<longrightarrow>
       autoclosed_while cfg result (fst c') (snd c') = Some y)"
proof (induction rule: autoclosed_while.raw_induct[rotated 1, consumes 1])
  case (1 aw cfg result line fh y)
  show ?case
  proof (intro impI allI)
    fix c'
    assume ne: "\<forall>n. y \<noteq> Inl (AutoclosedOffsetMissingError n)"
      and rel: "same_until_blank b post (line, fh) c'"
    show "autoclosed_while cfg result (fst c') (snd c') = Some y"
    proof (cases "truthy line")
      case False
      with rel have "\<not> truthy (fst c')"
        using same_until_blank_falsy[of b post line fh "fst c'" "snd c'"] by simp
      moreover from False "1.hyps" have "y = Inr result"
        by (auto simp: truthy_def split: option.splits)
      ultimately show ?thesis by (simp add: autoclosed_while_falsy)
    next
      case True
      then obtain l where l: "line = Some l" "l \<noteq> []"
        by (auto simp: truthy_def split: option.splits)
      with rel have c': "c' = (Some l, fh @ b # post)"
        using same_until_blank_Some[of b post l fh c'] by simp
      have unf: "autoclosed_while cfg result (Some l) (fh @ b # post) =
          (case autoclosed_body cfg result l (fh @ b # post) of
             Inl e \<Rightarrow> Some (Inl e)
           | Inr (result', line', fh') \<Rightarrow> autoclosed_while cfg result' line' fh')"
        using l(2) by (subst autoclosed_while.simps) simp
      show ?thesis
      proof (cases "autoclosed_body cfg result l fh")
        case (Inl e)
        with l "1.hyps" have y: "y = Inl e" by simp
        with ne have "\<forall>n. e \<noteq> AutoclosedOffsetMissingError n" by simp
        from autoclosed_body_error_until_blank[OF Inl this, of "b # post"] y
        show ?thesis by (simp add: c' unf)
      next
        case (Inr r)
        obtain result' c where r: "r = (result', c)" by (cases r) auto
        from l Inr r "1.hyps" have run: "aw cfg result' (fst c) (snd c) = Some y"
          by (simp split: prod.splits)
        from autoclosed_body_until_blank[OF assms Inr[unfolded r], of post]
        obtain c2 where b2: "autoclosed_body cfg result l (fh @ b # post) = Inr (result', c2)"
          and rel2: "same_until_blank b post c c2" by blast
        from "1.IH"[OF run] ne rel2
        have "autoclosed_while cfg result' (fst c2) (snd c2) = Some y" by simp
        then show ?thesis by (cases c2) (simp add: c' unf b2)
      qed
    qed
  qed
qed

lemma extract_autoclosed_until_blank:
  assumes "blank b"
    and "extract_and_process_autoclosed_dry_run_infos cfg pre = Some y"
    and "\<forall>n. y \<noteq> Inl (AutoclosedOffsetMissingError n)"
  shows "extract_and_process_autoclosed_dry_run_infos cfg (pre @ b # post) = Some y"
proof -
  obtain ln fl where g: "get_next_line pre = (ln, fl)" by (cases "get_next_line pre") auto
  obtain ln2 fl2 where g2: "get_next_line (pre @ b # post) = (ln2, fl2)"
    by (cases "get_next_line (pre @ b # post)") auto
  have rel: "same_until_blank b post (ln, fl) (ln2, fl2)"
    using get_next_line_until_blank[OF assms(1), of post pre] g g2 by simp
  from assms(2) have "autoclosed_while cfg [] ln fl = Some y"
    by (simp add: extract_and_process_autoclosed_dry_run_infos_def g)
  from autoclosed_while_until_blank_aux[OF assms(1) this, of post] assms(3) rel
  show ?thesis
    by (simp add: extract_and_process_autoclosed_dry_run_infos_def g2)
qed

text \<open>
  C10 (as amended). A line that is empty once stripped ends the loop that holds it as
  its line in hand. The section extraction and the dry-run event index read every line
  at the head of their loops, so they stop at the first blank line: their result is that
  of the lines before it, whatever follows. The autoclosed-event extractor also reads
  lines while it advances from a marker to its title line, and those are not tested for
  blankness: it stops at the blank line with the outcome of the lines before it when that
  outcome is a result or a title that does not match, that is, when no advance runs over
  the end of these lines.
\<close>

theorem scans_stop_at_blank_line:
  assumes "blank b"
  shows "find_branches_lists cfg (pre @ b # post) = find_branches_lists cfg pre
    \<and> extract_general_dry_run_infos cfg (pre @ b # post) = extract_general_dry_run_infos cfg pre
    \<and> (\<forall>y. extract_and_process_autoclosed_dry_run_infos cfg pre = Some y \<and>
            (\<forall>n. y \<noteq> Inl (AutoclosedOffsetMissingError n)) \<longrightarrow>
            extract_and_process_autoclosed_dry_run_infos cfg (pre @ b # post) = Some y)"
  using find_branches_lists_until_blank[OF assms] extract_general_until_blank[OF assms]
    extract_autoclosed_until_blank[OF assms]
  by blast

lemma sample_sections:
  "find_branches_lists sample_config [''START a'', ''x'', ''END''] = Inr [(Some ''a'', [''x''])]"
  by (simp add: find_branches_lists_def outer_while.simps inner_while.simps truthy_def
      while_else_def extract_repository_name_def group_idx_def is_match_def
      sample_config_def re_literal_def re_prefix_group_def strip_def isspace_def Let_def)

lemma sample_events:
  "extract_general_dry_run_infos sample_config [''START a'', ''x'', ''END'']
     = Inr [(Some ''START'', Some ''a'', None)]"
  by (simp add: extract_general_dry_run_infos_def general_while.simps group_name_def
      sample_config_def re_repo_branch_info_def not_blank_char_def strip_def isspace_def Let_def)

lemma sample_autoclosed:
  "extract_and_process_autoclosed_dry_run_infos sample_config [''START a'', ''x'', ''END'']
     = Some (Inr [])"
  by (simp add: extract_and_process_autoclosed_dry_run_infos_def autoclosed_while.simps
      autoclosed_body_def sample_config_def re_prefix_group_def strip_def isspace_def Let_def)

theorem scans_stop_at_blank_line_witness:
  "find_branches_lists sample_config [''START a'', ''x'', ''END'', '' '', ''START b'', ''END'']
     = Inr [(Some ''a'', [''x''])]
   \<and> extract_general_dry_run_infos sample_config
       [''START a'', ''x'', ''END'', '' '', ''START b'', ''END'']
     = Inr [(Some ''START'', Some ''a'', None)]
   \<and> extract_and_process_autoclosed_dry_run_infos sample_config
       [''START a'', ''x'', ''END'', '' '', ''START b'', ''END'']
     = Some (Inr [])"
proof -
  have b: "blank '' ''" by (simp add: blank_def strip_def isspace_def)
  have ne: "\<forall>n. (Inr [] :: error + autoclosed_record list) \<noteq> Inl (AutoclosedOffsetMissingError n)"
    by simp
  from scans_stop_at_blank_line[OF b, of sample_config "[''START a'', ''x'', ''END'']"
      "[''START b'', ''END'']"] sample_autoclosed ne
  show ?thesis by (simp add: sample_sections sample_events)
qed

text \<open>
  The claim as stated fails for the autoclosed-event extractor: a blank line between a
  marker and its title line (offset 2) is passed over, and the marker after it is found.
  The lines up to the blank line alone fail with a missing offset line.
\<close>

theorem blank_line_in_offset_counterexample:
  "blank '''' \<and>
   extract_and_process_autoclosed_dry_run_infos sample_config
     [''AUTOCLOSED r'', '''', ''TITLE t'', ''AUTOCLOSED r2'', ''x'', ''TITLE t2'']
     = Some (Inr [(Some ''r'', Some ''t''), (Some ''r2'', Some ''t2'')])
   \<and> extract_and_process_autoclosed_dry_run_infos sample_config [''AUTOCLOSED r'', '''']
     = Some (Inl (AutoclosedOffsetMissingError 2))"
  by (simp add: extract_and_process_autoclosed_dry_run_infos_def autoclosed_while.simps
      autoclosed_body_def advance_offset line_at_offset_def group_name_def sample_config_def
      re_prefix_group_def blank_def strip_def isspace_def Let_def)

section \<open>Properties of the section extraction\<close>

lemma cursor_lines_falsy: "\<not> truthy line \<Longrightarrow> cursor_lines line fh = []"
  by (auto simp: cursor_lines_def truthy_def split: option.splits)

lemma cursor_lines_step:
  "l \<noteq> [] \<Longrightarrow> (ln, fl) = get_next_line fh \<Longrightarrow>
   cursor_lines (Some l) fh = l # cursor_lines ln fl"
  by (cases fh) (auto simp: cursor_lines_def)

lemma cursor_lines_start:
  "get_next_line log_file = (ln, fl) \<Longrightarrow> cursor_lines ln fl = examined_lines log_file"
  by (cases log_file) (auto simp: cursor_lines_def examined_lines_def)

lemma keys_update: "fst ` set (AList.update k v al) = insert k (fst ` set al)"
  by (simp add: dom_update)

lemma inner_while_keys:
  "(ss', s', line', fh') = inner_while cfg r ss s line fh \<Longrightarrow>
   fst ` set ss' \<union> sealed_repositories cfg OUTSIDE (cursor_lines line' fh') =
   fst ` set ss \<union> sealed_repositories cfg (IN_SECTION r) (cursor_lines line fh)"
proof (induction cfg r ss s line fh rule: inner_while.induct)
  case (1 cfg r ss s line fh)
  show ?case
  proof (cases "truthy line")
    case False
    with "1.prems" show ?thesis by (simp add: inner_while_falsy cursor_lines_falsy)
  next
    case True
    then obtain l where l: "line = Some l" "l \<noteq> []"
      by (auto simp: truthy_def split: option.splits)
    obtain ln fl where g: "(ln, fl) = get_next_line fh" by (cases "get_next_line fh") auto
    note cl = cursor_lines_step[OF l(2) g]
    show ?thesis
    proof (cases "is_match (branches_info_end_pattern cfg) l")
      case True
      have "inner_while cfg r ss s line fh = (AList.update r s ss, [], ln, fl)"
        using l True g[symmetric] by (subst inner_while.simps) simp
      with "1.prems" l True cl show ?thesis by (simp add: keys_update)
    next
      case False
      have "inner_while cfg r ss s line fh = inner_while cfg r ss (s @ [l]) ln fl"
        using l False g[symmetric] by (subst inner_while.simps) simp
      with "1.prems" have "(ss', s', line', fh') = inner_while cfg r ss (s @ [l]) ln fl" by simp
      from "1.IH"[OF l(1) l(2) False g this] l False cl show ?thesis by simp
    qed
  qed
qed

lemma inner_while_distinct:
  "(ss', s', line', fh') = inner_while cfg r ss s line fh \<Longrightarrow>
   distinct (map fst ss) \<Longrightarrow> distinct (map fst ss')"
proof (induction cfg r ss s line fh rule: inner_while.induct)
  case (1 cfg r ss s line fh)
  show ?case
  proof (cases "truthy line")
    case False
    with "1.prems" show ?thesis by (simp add: inner_while_falsy)
  next
    case True
    then obtain l where l: "line = Some l" "l \<noteq> []"
      by (auto simp: truthy_def split: option.splits)
    obtain ln fl where g: "(ln, fl) = get_next_line fh" by (cases "get_next_line fh") auto
    show ?thesis
    proof (cases "is_match (branches_info_end_pattern cfg) l")
      case True
      have "inner_while cfg r ss s line fh = (AList.update r s ss, [], ln, fl)"
        using l True g[symmetric] by (subst inner_while.simps) simp
      with "1.prems" show ?thesis by (simp add: distinct_update)
    next
      case False
      have "inner_while cfg r ss s line fh = inner_while cfg r ss (s @ [l]) ln fl"
        using l False g[symmetric] by (subst inner_while.simps) simp
      with "1.prems" have "(ss', s', line', fh') = inner_while cfg r ss (s @ [l]) ln fl" by simp
      from "1.IH"[OF l(1) l(2) False g this "1.prems"(2)] show ?thesis .
    qed
  qed
qed

lemma while_else_Inr: "while_else ss r = Inr m \<Longrightarrow> m = ss"
  by (auto simp: while_else_def split: option.splits if_splits)

lemma outer_while_keys:
  "outer_while cfg ss s repo line fh = Inr m \<Longrightarrow> distinct (map fst ss) \<Longrightarrow>
   fst ` set m = fst ` set ss \<union> sealed_repositories cfg OUTSIDE (cursor_lines line fh)
   \<and> distinct (map fst m)"
proof (induction cfg ss s repo line fh rule: outer_while.induct)
  case (1 cfg ss s repo line fh)
  show ?case
  proof (cases "truthy line")
    case False
    with "1.prems" show ?thesis
      by (auto simp: outer_while_falsy cursor_lines_falsy dest: while_else_Inr)
  next
    case True
    then obtain l where l: "line = Some l" "l \<noteq> []"
      by (auto simp: truthy_def split: option.splits)
    obtain ln fl where g: "(ln, fl) = get_next_line fh" by (cases "get_next_line fh") auto
    note cl = cursor_lines_step[OF l(2) g]
    show ?thesis
    proof (cases "is_match (branches_info_start_pattern cfg) l")
      case False
      have "outer_while cfg ss s repo line fh = outer_while cfg ss s repo ln fl"
        using l False g[symmetric] by (subst outer_while.simps) simp
      with "1.prems" have "outer_while cfg ss s repo ln fl = Inr m" by simp
      from "1.IH"(2)[OF l(1) l(2) False g this "1.prems"(2)] l False cl
      show ?thesis by simp
    next
      case True
      show ?thesis
      proof (cases "extract_repository_name l (repository_name_pattern cfg)")
        case (Inl e)
        have "outer_while cfg ss s repo line fh = Inl e"
          using l True Inl by (subst outer_while.simps) simp
        with "1.prems" show ?thesis by simp
      next
        case (Inr name)
        obtain ss' s' ln' fl' where i: "(ss', s', ln', fl') = inner_while cfg name ss s ln fl"
          by (metis surj_pair)
        have "outer_while cfg ss s repo line fh = outer_while cfg ss' s' name ln' fl'"
          using l True Inr g[symmetric] i[symmetric] by (subst outer_while.simps) simp
        with "1.prems" have run: "outer_while cfg ss' s' name ln' fl' = Inr m" by simp
        have d: "distinct (map fst ss')" by (rule inner_while_distinct[OF i "1.prems"(2)])
        have "fst ` set m = fst ` set ss' \<union> sealed_repositories cfg OUTSIDE (cursor_lines ln' fl')
              \<and> distinct (map fst m)"
          by (rule "1.IH"(1)[OF l(1) l(2) True Inr g _ _ _ run d]) (simp_all add: i[symmetric])
        with inner_while_keys[OF i] l True Inr cl show ?thesis by simp
      qed
    qed
  qed
qed

lemma extract_repository_name_errors:
  "extract_repository_name l p = Inl e \<Longrightarrow>
   e = RepositoryNameError \<or> (e = NoSuchGroupError \<and> (\<exists>m. p l = Some m \<and> groups m = []))"
  by (auto simp: extract_repository_name_def group_idx_def Suc_le_eq split: option.splits if_splits)

lemma while_else_Inl: "while_else ss r = Inl e \<Longrightarrow> \<exists>name. e = UnterminatedSectionError name"
  by (auto simp: while_else_def split: option.splits if_splits)

lemma outer_while_errors:
  "outer_while cfg ss s repo line fh = Inl e \<Longrightarrow>
   e = RepositoryNameError \<or> (\<exists>name. e = UnterminatedSectionError name) \<or>
   (e = NoSuchGroupError \<and> (\<exists>l m. repository_name_pattern cfg l = Some m \<and> groups m = []))"
proof (induction cfg ss s repo line fh rule: outer_while.induct)
  case (1 cfg ss s repo line fh)
  show ?case
  proof (cases "truthy line")
    case False
    with "1.prems" show ?thesis
      by (auto simp: outer_while_falsy dest: while_else_Inl)
  next
    case True
    then obtain l where l: "line = Some l" "l \<noteq> []"
      by (auto simp: truthy_def split: option.splits)
    obtain ln fl where g: "(ln, fl) = get_next_line fh" by (cases "get_next_line fh") auto
    show ?thesis
    proof (cases "is_match (branches_info_start_pattern cfg) l")
      case False
      have "outer_while cfg ss s repo line fh = outer_while cfg ss s repo ln fl"
        using l False g[symmetric] by (subst outer_while.simps) simp
      with "1.prems" have "outer_while cfg ss s repo ln fl = Inl e" by simp
      from "1.IH"(2)[OF l(1) l(2) False g this] show ?thesis .
    next
      case True
      show ?thesis
      proof (cases "extract_repository_name l (repository_name_pattern cfg)")
        case (Inl e')
        have "outer_while cfg ss s repo line fh = Inl e'"
          using l True Inl by (subst outer_while.simps) simp
        with "1.prems" have "e' = e" by simp
        with extract_repository_name_errors[OF Inl] show ?thesis by blast
      next
        case (Inr name)
        obtain ss' s' ln' fl' where i: "(ss', s', ln', fl') = inner_while cfg name ss s ln fl"
          by (metis surj_pair)
        have "outer_while cfg ss s repo line fh = outer_while cfg ss' s' name ln' fl'"
          using l True Inr g[symmetric] i[symmetric] by (subst outer_while.simps) simp
        with "1.prems" have run: "outer_while cfg ss' s' name ln' fl' = Inl e" by simp
        show ?thesis
          by (rule "1.IH"(1)[OF l(1) l(2) True Inr g _ _ _ run]) (simp_all add: i[symmetric])
      qed
    qed
  qed
qed

text \<open>
  What the section extraction does on every input. It looks at the lines before the
  first blank line only (on a log without a blank line: at all lines), and it either
  returns a mapping whose keys are exactly the repository identifiers extracted at start
  markers that are followed by a matching end marker among those lines, or it fails with
  one of \<open>EmptyLogError\<close>, \<open>RepositoryNameError\<close> and \<open>UnterminatedSectionError\<close>, or
  with \<open>NoSuchGroupError\<close>, which a repository-name pattern with a first capture group
  rules out.
\<close>

lemma section_extraction_outcomes:
  "((\<exists>m. find_branches_lists cfg log_file = Inr m \<and>
         fst ` set m = sealed_repositories cfg OUTSIDE (examined_lines log_file) \<and>
         distinct (map fst m))
    \<or> find_branches_lists cfg log_file = Inl EmptyLogError
    \<or> find_branches_lists cfg log_file = Inl RepositoryNameError
    \<or> (\<exists>r. find_branches_lists cfg log_file = Inl (UnterminatedSectionError r))
    \<or> find_branches_lists cfg log_file = Inl NoSuchGroupError)
   \<and> ((\<forall>l m. repository_name_pattern cfg l = Some m \<longrightarrow> groups m \<noteq> []) \<longrightarrow>
        find_branches_lists cfg log_file \<noteq> Inl NoSuchGroupError)"
proof -
  obtain ln fl where g: "get_next_line log_file = (ln, fl)"
    by (cases "get_next_line log_file") auto
  show ?thesis
  proof (cases "truthy ln")
    case False
    then show ?thesis by (simp add: find_branches_lists_def g)
  next
    case True
    then have f: "find_branches_lists cfg log_file = outer_while cfg [] [] None ln fl"
      by (simp add: find_branches_lists_def g)
    show ?thesis
    proof (cases "outer_while cfg [] [] None ln fl")
      case (Inr m)
      from outer_while_keys[OF Inr] cursor_lines_start[OF g] f Inr
      show ?thesis by simp
    next
      case (Inl e)
      from outer_while_errors[OF Inl] f Inl show ?thesis by auto
    qed
  qed
qed

lemma sample_sections_two:
  "find_branches_lists sample_config [''w'', ''START a'', ''x'', ''END'', ''START b'', ''END '']
     = Inr [(Some ''a'', [''x'']), (Some ''b'', [])]"
  by (simp add: find_branches_lists_def outer_while.simps inner_while.simps truthy_def
      while_else_def extract_repository_name_def group_idx_def is_match_def
      sample_config_def re_literal_def re_prefix_group_def strip_def isspace_def Let_def)

lemma sample_sealed_two:
  "sealed_repositories sample_config OUTSIDE
     (examined_lines [''w'', ''START a'', ''x'', ''END'', ''START b'', ''END ''])
     = {Some ''a'', Some ''b''}"
  by (simp add: examined_lines_def extract_repository_name_def group_idx_def is_match_def
      sample_config_def re_literal_def re_prefix_group_def strip_def isspace_def Let_def)

lemma section_extraction_outcomes_sample:
  "find_branches_lists sample_config [''w'', ''START a'', ''x'', ''END'', ''START b'', ''END '']
     \<noteq> Inl NoSuchGroupError"
proof -
  have h: "\<forall>l m. repository_name_pattern sample_config l = Some m \<longrightarrow> groups m \<noteq> []"
    by (auto simp: sample_config_def re_prefix_group_def Let_def split: if_splits)
  from section_extraction_outcomes[of sample_config
      "[''w'', ''START a'', ''x'', ''END'', ''START b'', ''END '']", THEN conjunct2, THEN mp, OF h]
  show ?thesis .
qed

text \<open>
  C2. The section extraction has to return a mapping whose keys are exactly the
  repository identifiers extracted at start markers that are followed by a matching end
  marker, or to fail with \<open>EmptyLogError\<close>, \<open>RepositoryNameError\<close> or
  \<open>UnterminatedSectionError\<close>. The code does not on a log with a blank line, which its
  loops take for the end of the file. On the log \<^verbatim>\<open>w\<close>, blank line,
  \<^verbatim>\<open>START a\<close>, \<^verbatim>\<open>END\<close> the section of \<^verbatim>\<open>a\<close> has its start and its end marker,
  and the mapping returned is empty. On the same section after a blank first line the
  code fails with \<open>EmptyLogError\<close>, though the log has lines; with the blank line between
  the start and the end marker it fails with \<open>UnterminatedSectionError\<close>, though the end
  marker is there.
\<close>

theorem blank_line_ends_section_scan:
  "find_branches_lists sample_config [''w'', '''', ''START a'', ''END''] = Inr []
   \<and> sealed_repositories sample_config OUTSIDE (map strip [''w'', '''', ''START a'', ''END''])
       = {Some ''a''}
   \<and> find_branches_lists sample_config ['''', ''START a'', ''END''] = Inl EmptyLogError
   \<and> find_branches_lists sample_config [''START a'', '''', ''END'']
       = Inl (UnterminatedSectionError ''a'')"
  by (simp add: find_branches_lists_def outer_while.simps inner_while.simps truthy_def
      while_else_def extract_repository_name_def group_idx_def is_match_def
      sample_config_def re_literal_def re_prefix_group_def strip_def isspace_def Let_def)

text \<open>
  A section that is opened for a repository \<open>r\<close> and meets no end marker up to the end
  of the examined lines fails with \<open>UnterminatedSectionError r\<close>, provided no section of
  \<open>r\<close> was sealed before.
\<close>

lemma inner_while_no_end:
  "\<forall>x \<in> set (cursor_lines line fh). \<not> is_match (branches_info_end_pattern cfg) x \<Longrightarrow>
   \<exists>s' line' fh'. inner_while cfg r ss s line fh = (ss, s', line', fh') \<and> \<not> truthy line'"
proof (induction cfg r ss s line fh rule: inner_while.induct)
  case (1 cfg r ss s line fh)
  show ?case
  proof (cases "truthy line")
    case False
    then show ?thesis by (simp add: inner_while_falsy)
  next
    case True
    then obtain l where l: "line = Some l" "l \<noteq> []"
      by (auto simp: truthy_def split: option.splits)
    obtain ln fl where g: "(ln, fl) = get_next_line fh" by (cases "get_next_line fh") auto
    note cl = cursor_lines_step[OF l(2) g]
    from "1.prems" l cl have ne: "\<not> is_match (branches_info_end_pattern cfg) l"
      and rest: "\<forall>x \<in> set (cursor_lines ln fl). \<not> is_match (branches_info_end_pattern cfg) x"
      by simp_all
    have "inner_while cfg r ss s line fh = inner_while cfg r ss (s @ [l]) ln fl"
      using l ne g[symmetric] by (subst inner_while.simps) simp
    with "1.IH"[OF l(1) l(2) ne g rest] show ?thesis by simp
  qed
qed

lemma unterminated_section:
  assumes "l \<noteq> []"
    and "is_match (branches_info_start_pattern cfg) l"
    and "extract_repository_name l (repository_name_pattern cfg) = Inr (Some r)"
    and "\<forall>x \<in> set (cursor_lines (fst (get_next_line fh)) (snd (get_next_line fh))).
           \<not> is_match (branches_info_end_pattern cfg) x"
    and "map_of ss (Some r) = None"
  shows "outer_while cfg ss s repo (Some l) fh = Inl (UnterminatedSectionError r)"
proof -
  obtain ln fl where g: "get_next_line fh = (ln, fl)" by (cases "get_next_line fh") auto
  from inner_while_no_end[of ln fl cfg "Some r" ss s] assms(4) g
  obtain s' line' fh' where i: "inner_while cfg (Some r) ss s ln fl = (ss, s', line', fh')"
    and f: "\<not> truthy line'" by auto
  have "outer_while cfg ss s repo (Some l) fh = outer_while cfg ss s' (Some r) line' fh'"
    using assms(1,2,3) g i by (subst outer_while.simps) simp
  also have "\<dots> = Inl (UnterminatedSectionError r)"
    using f assms(5) by (simp add: outer_while_falsy while_else_def)
  finally show ?thesis .
qed

text \<open>
  C4. A start marker with no end marker before the end of the input has to fail with
  \<open>UnterminatedSectionError\<close> naming the repository, also when an earlier section of the
  same repository was sealed. The code does not: its test is whether the repository is a
  key of the sealed sections, so the proviso of the lemma above cannot be dropped. The
  first log returns the old section of \<^verbatim>\<open>a\<close> and drops the open one; the second, with
  another repository in its first section, fails as it should.
\<close>

theorem recurring_repository_unterminated:
  "find_branches_lists sample_config [''START a'', ''x'', ''END'', ''START a'', ''y'']
     = Inr [(Some ''a'', [''x''])]
   \<and> find_branches_lists sample_config [''START b'', ''x'', ''END'', ''START a'', ''y'']
     = Inl (UnterminatedSectionError ''a'')"
  by (simp add: find_branches_lists_def outer_while.simps inner_while.simps truthy_def
      while_else_def extract_repository_name_def group_idx_def is_match_def
      sample_config_def re_literal_def re_prefix_group_def strip_def isspace_def Let_def)

section \<open>Properties of the section decoder\<close>



lemma sections_loop_failure:
  "sections_loop json_loads ts relevant_sections items = Inl e \<Longrightarrow> e = SectionBodyParseError"
  by (induction json_loads ts relevant_sections items rule: sections_loop.induct)
     (auto split: option.splits)







end
